theory Spec2Isabelle
  imports Complex_Main
begin

unbundle bit_operations_syntax

section \<open>Coordinates (the vec3 positions the viewer passes around)\<close>

text \<open>
  Block positions are integer triples. \<open>Vec3.offset\<close> returns a fresh vector and leaves
  its receiver alone; \<open>Vec3.floored\<close> is the identity on integer coordinates.
\<close>

record Vec3 =
  x :: int
  y :: int
  z :: int

definition offset :: "Vec3 \<Rightarrow> int \<Rightarrow> int \<Rightarrow> int \<Rightarrow> Vec3" where
  "offset pos dx dy dz = \<lparr>x = x pos + dx, y = y pos + dy, z = z pos + dz\<rparr>"

definition floored :: "Vec3 \<Rightarrow> Vec3" where
  "floored pos = pos"

text \<open>\<open>Math.floor(c / 16)\<close> on an integer \<open>c\<close>: HOL's \<open>div\<close> rounds down as well.\<close>

definition floor16 :: "int \<Rightarrow> int" where
  "floor16 c = c div 16"

text \<open>
  A section key is the template string \<open>`${X},${Y},${Z}`\<close> of three integers; the
  string is determined by the triple and determines it, so the key is the triple. A
  column key \<open>`${X},${Z}`\<close> is the pair.
\<close>

type_synonym section_key = "int \<times> int \<times> int"
type_synonym column_key = "int \<times> int"

definition sectionKey :: "int \<Rightarrow> int \<Rightarrow> int \<Rightarrow> section_key" where
  "sectionKey X Y Z = (X, Y, Z)"

definition columnKey :: "int \<Rightarrow> int \<Rightarrow> column_key" where
  "columnKey X Z = (X, Z)"

text \<open>The key \<open>setSectionDirty\<close> builds from a position.\<close>

definition section_key_of :: "Vec3 \<Rightarrow> section_key" where
  "section_key_of pos =
     sectionKey (floor16 (x pos) * 16) (floor16 (y pos) * 16) (floor16 (z pos) * 16)"

section \<open>JavaScript remainder and the renderer's \<open>mod\<close>\<close>

text \<open>
  \<open>%\<close> truncates: the result has the sign of the dividend. \<open>mod (x, n)\<close> is
  \<open>((x % n) + n) % n\<close>.
\<close>

definition js_rem :: "int \<Rightarrow> int \<Rightarrow> int" where
  "js_rem a n = sgn a * (\<bar>a\<bar> mod \<bar>n\<bar>)"

definition mod_js :: "int \<Rightarrow> int \<Rightarrow> int" where
  "mod_js a n = js_rem (js_rem a n + n) n"

text \<open>The \<open>hash\<close> of \<open>setSectionDirty\<close>, for \<open>n\<close> workers.\<close>

definition worker_hash :: "Vec3 \<Rightarrow> nat \<Rightarrow> int" where
  "worker_hash pos n =
     mod_js (floor16 (x pos) + floor16 (y pos) + floor16 (z pos)) (int n)"

section \<open>lruCache.js\<close>

text \<open>
  A JavaScript \<open>Map\<close> iterates in insertion order, and \<open>set\<close> on a present key keeps
  the key's place: an association list with one entry per key.
\<close>

type_synonym ('k, 'v) js_map = "('k \<times> 'v) list"

definition Map_has :: "('k, 'v) js_map \<Rightarrow> 'k \<Rightarrow> bool" where
  "Map_has m k = (k \<in> set (map fst m))"

definition Map_get :: "('k, 'v) js_map \<Rightarrow> 'k \<Rightarrow> 'v option" where
  "Map_get m k = map_of m k"

definition Map_delete :: "('k, 'v) js_map \<Rightarrow> 'k \<Rightarrow> ('k, 'v) js_map" where
  "Map_delete m k = filter (\<lambda>e. fst e \<noteq> k) m"

fun Map_set :: "('k, 'v) js_map \<Rightarrow> 'k \<Rightarrow> 'v \<Rightarrow> ('k, 'v) js_map" where
  "Map_set [] k v = [(k, v)]"
| "Map_set (e # m) k v = (if fst e = k then (k, v) # m else e # Map_set m k v)"

definition Map_size :: "('k, 'v) js_map \<Rightarrow> nat" where
  "Map_size m = length m"

definition Map_keys :: "('k, 'v) js_map \<Rightarrow> 'k list" where
  "Map_keys m = map fst m"

record ('k, 'v) LRUCache =
  maxSize :: int
  cache :: "('k, 'v) js_map"

definition LRUCache_new :: "int \<Rightarrow> ('k, 'v) LRUCache" where
  "LRUCache_new n = \<lparr>maxSize = n, cache = []\<rparr>"

text \<open>\<open>get\<close>: \<open>undefined\<close> is \<open>None\<close>; a hit is deleted and set again, which moves it to the end.\<close>

definition LRU_get :: "('k, 'v) LRUCache \<Rightarrow> 'k \<Rightarrow> 'v option \<times> ('k, 'v) LRUCache" where
  "LRU_get c k =
     (if \<not> Map_has (cache c) k then (None, c)
      else case Map_get (cache c) k of
             None \<Rightarrow> (None, c)
           | Some v \<Rightarrow> (Some v, c\<lparr>cache := Map_set (Map_delete (cache c) k) k v\<rparr>))"

text \<open>
  \<open>set\<close>: \<open>this.cache.keys().next().value\<close> is the first key, or \<open>undefined\<close> on an empty
  map, where the delete that follows removes nothing.
\<close>

definition LRU_set :: "('k, 'v) LRUCache \<Rightarrow> 'k \<Rightarrow> 'v \<Rightarrow> ('k, 'v) LRUCache" where
  "LRU_set c k v =
     (let m = (if Map_has (cache c) k then Map_delete (cache c) k
               else if int (Map_size (cache c)) \<ge> maxSize c then
                 (case Map_keys (cache c) of
                    [] \<Rightarrow> cache c
                  | firstKey # _ \<Rightarrow> Map_delete (cache c) firstKey)
               else cache c)
      in c\<lparr>cache := Map_set m k v\<rparr>)"

definition LRU_has :: "('k, 'v) LRUCache \<Rightarrow> 'k \<Rightarrow> bool" where
  "LRU_has c k = Map_has (cache c) k"

definition LRU_delete :: "('k, 'v) LRUCache \<Rightarrow> 'k \<Rightarrow> bool \<times> ('k, 'v) LRUCache" where
  "LRU_delete c k = (Map_has (cache c) k, c\<lparr>cache := Map_delete (cache c) k\<rparr>)"

definition LRU_clear :: "('k, 'v) LRUCache \<Rightarrow> ('k, 'v) LRUCache" where
  "LRU_clear c = c\<lparr>cache := []\<rparr>"

definition LRU_size :: "('k, 'v) LRUCache \<Rightarrow> nat" where
  "LRU_size c = Map_size (cache c)"

text \<open>A caller's sequence of operations on one cache, run from left to right.\<close>

datatype ('k, 'v) lru_op = Get 'k | Set 'k 'v | Has 'k | Delete 'k | Clear

fun lru_step :: "('k, 'v) LRUCache \<Rightarrow> ('k, 'v) lru_op \<Rightarrow> ('k, 'v) LRUCache" where
  "lru_step c (Get k) = snd (LRU_get c k)"
| "lru_step c (Set k v) = LRU_set c k v"
| "lru_step c (Has k) = c"
| "lru_step c (Delete k) = snd (LRU_delete c k)"
| "lru_step c Clear = LRU_clear c"

definition lru_run :: "int \<Rightarrow> ('k, 'v) lru_op list \<Rightarrow> ('k, 'v) LRUCache" where
  "lru_run n ops = foldl lru_step (LRUCache_new n) ops"

text \<open>The recency order: least recently touched key first.\<close>

definition lru_keys :: "('k, 'v) LRUCache \<Rightarrow> 'k list" where
  "lru_keys c = Map_keys (cache c)"

text \<open>The invariant of a cache: one entry per key, and no more entries than the capacity.\<close>

definition lru_inv :: "('k, 'v) LRUCache \<Rightarrow> bool" where
  "lru_inv c \<longleftrightarrow> distinct (lru_keys c) \<and> int (length (lru_keys c)) \<le> maxSize c"

section \<open>dispose.js\<close>

text \<open>
  GPU objects (geometries, materials, textures) are shared by reference, so they live in a
  store and are named by their address. What the claims observe is which \<open>dispose()\<close>
  calls and texture installations happen and in which order: the store keeps them in a log.
\<close>

type_synonym ref = nat

datatype gpu_event =
    GeometryDisposed ref
  | MaterialDisposed ref
  | TextureDisposed ref
  | MapAssigned ref ref
  | ObjectDisposed ref

record gpu =
  slots :: "ref \<Rightarrow> (string, ref) js_map"
  gpu_log :: "gpu_event list"

definition emit_gpu :: "gpu_event \<Rightarrow> gpu \<Rightarrow> gpu" where
  "emit_gpu e g = g\<lparr>gpu_log := gpu_log g @ [e]\<rparr>"

definition textureProperties :: "string list" where
  "textureProperties =
     [''map'', ''lightMap'', ''bumpMap'', ''normalMap'', ''specularMap'', ''envMap'',
      ''alphaMap'', ''aoMap'', ''displacementMap'', ''emissiveMap'', ''gradientMap'',
      ''metalnessMap'', ''roughnessMap'']"

text \<open>\<open>material.dispose()\<close>, the call of three.js on the material itself.\<close>

definition material_dispose :: "ref \<Rightarrow> gpu \<Rightarrow> gpu" where
  "material_dispose m g = emit_gpu (MaterialDisposed m) g"

definition dispose_slot :: "ref \<Rightarrow> string \<Rightarrow> gpu \<Rightarrow> gpu" where
  "dispose_slot m prop g =
     (case Map_get (slots g m) prop of
        None \<Rightarrow> g
      | Some t \<Rightarrow> (emit_gpu (TextureDisposed t) g)
                   \<lparr>slots := (slots g)(m := Map_delete (slots g m) prop)\<rparr>)"

definition disposeMaterial :: "ref option \<Rightarrow> gpu \<Rightarrow> gpu" where
  "disposeMaterial material g =
     (case material of
        None \<Rightarrow> g
      | Some m \<Rightarrow> material_dispose m (fold (dispose_slot m) textureProperties g))"

definition disposeTexture :: "ref option \<Rightarrow> gpu \<Rightarrow> gpu" where
  "disposeTexture texture g =
     (case texture of None \<Rightarrow> g | Some t \<Rightarrow> emit_gpu (TextureDisposed t) g)"

datatype material_field = NoMaterial | OneMaterial ref | MaterialArray "ref list"

datatype Object3D =
  Object3D (obj_id: ref) (children: "Object3D list") (geometry: "ref option")
           (obj_material: material_field) (has_dispose: bool)

record dispose_options =
  disposeTextures :: bool
  recursive :: bool

definition dispose_one_material :: "dispose_options \<Rightarrow> ref \<Rightarrow> gpu \<Rightarrow> gpu" where
  "dispose_one_material options m g =
     (if disposeTextures options then disposeMaterial (Some m) g else material_dispose m g)"

text \<open>
  \<open>dispose3\<close> returns the object as it leaves it (children detached, geometry and
  material cleared) and the store. Its last step, \<open>object.parent.remove(object)\<close>, has
  nothing to do in this tree of children: the loop detaches each child before the
  recursive call, and the renderer takes a mesh out of the scene before disposing it.
\<close>

fun dispose3 :: "dispose_options \<Rightarrow> Object3D \<Rightarrow> gpu \<Rightarrow> Object3D \<times> gpu"
  and dispose3_children :: "dispose_options \<Rightarrow> Object3D list \<Rightarrow> gpu \<Rightarrow> gpu" where
  "dispose3 options (Object3D i cs geo mat d) g =
     (let g1 = (if recursive options then dispose3_children options cs g else g);
          cs' = (if recursive options then [] else cs);
          g2 = (case geo of None \<Rightarrow> g1 | Some r \<Rightarrow> emit_gpu (GeometryDisposed r) g1);
          g3 = (case mat of
                  NoMaterial \<Rightarrow> g2
                | OneMaterial m \<Rightarrow> dispose_one_material options m g2
                | MaterialArray ms \<Rightarrow> fold (dispose_one_material options) ms g2);
          g4 = (if d then emit_gpu (ObjectDisposed i) g3 else g3)
      in (Object3D i cs' None NoMaterial d, g4))"
| "dispose3_children options [] g = g"
| "dispose3_children options (child # cs) g =
     dispose3_children options cs (snd (dispose3 options child g))"

section \<open>world.js\<close>

text \<open>
  A column is prismarine-chunk's, a library outside this repository. Its part in the
  claims is modelled on the library's behaviour: a column is an array of vertical sections,
  some of them missing, each section a store of block state ids by position inside the
  section. A read from a missing section gives air (state 0). A write whose height is
  outside the array is ignored; a write into a missing section creates the section, all
  air, unless the state written is air, which is ignored too. The array starts at height 0.
\<close>

type_synonym local_pos = "int \<times> int \<times> int"

type_synonym ChunkSection = "local_pos \<Rightarrow> nat"

record Column =
  sections :: "ChunkSection option list"
  biomeIds :: "local_pos \<Rightarrow> int"

text \<open>\<open>column.sections[i]\<close>, \<open>undefined\<close> outside the array.\<close>

definition section_at :: "Column \<Rightarrow> int \<Rightarrow> ChunkSection option" where
  "section_at column i =
     (if 0 \<le> i \<and> nat i < length (sections column) then sections column ! nat i else None)"

definition toSectionPos :: "Vec3 \<Rightarrow> local_pos" where
  "toSectionPos pos = (x pos, y pos AND 15, z pos)"

definition column_getBlockStateId :: "Column \<Rightarrow> Vec3 \<Rightarrow> nat" where
  "column_getBlockStateId column pos =
     (case section_at column (floor16 (y pos)) of
        None \<Rightarrow> 0
      | Some sec \<Rightarrow> sec (toSectionPos pos))"

definition column_setBlockStateId :: "Column \<Rightarrow> Vec3 \<Rightarrow> nat \<Rightarrow> Column" where
  "column_setBlockStateId column pos sid =
     (let i = floor16 (y pos)
      in if i < 0 \<or> int (length (sections column)) \<le> i then column
         else (case sections column ! nat i of
                 None \<Rightarrow>
                   if sid = 0 then column
                   else column\<lparr>sections := (sections column)
                          [nat i := Some ((\<lambda>_. 0)(toSectionPos pos := sid))]\<rparr>
               | Some sec \<Rightarrow>
                   column\<lparr>sections := (sections column)
                     [nat i := Some (sec(toSectionPos pos := sid))]\<rparr>))"

text \<open>
  A chunk payload as it travels to the workers: \<open>Inr\<close> the column \<open>Chunk.fromJson\<close>
  builds from it, \<open>Inl\<close> the message of the error \<open>fromJson\<close> throws on a payload it
  cannot read. A block descriptor carries what \<open>getBlock\<close> reads and writes.
\<close>

type_synonym chunk_json = "string + Column"

record Block =
  stateId :: nat
  shapes :: "rat list list"
  isCube_field :: bool
  position :: "Vec3 option"
  biome :: "string option"

definition posInChunk :: "Vec3 \<Rightarrow> Vec3" where
  "posInChunk pos = (let p = floored pos in p\<lparr>x := x p AND 15, z := z p AND 15\<rparr>)"

definition local_of :: "Vec3 \<Rightarrow> local_pos" where
  "local_of p = (x p, y p, z p)"

definition isCube :: "rat list list \<Rightarrow> bool" where
  "isCube shs = (case shs of [shape] \<Rightarrow> take 6 shape = [0, 0, 0, 1, 1, 1] | _ \<Rightarrow> False)"

record World =
  columns :: "column_key \<rightharpoonup> Column"
  blockCache :: "(nat, Block) LRUCache"
  biomeCache :: "int \<rightharpoonup> string"
  registry :: "nat \<Rightarrow> rat list list"

definition BLOCK_CACHE_MAX_SIZE :: int where
  "BLOCK_CACHE_MAX_SIZE = 10000"

definition World_new :: "(int \<rightharpoonup> string) \<Rightarrow> (nat \<Rightarrow> rat list list) \<Rightarrow> World" where
  "World_new biomes reg =
     \<lparr>columns = Map.empty, blockCache = LRUCache_new BLOCK_CACHE_MAX_SIZE,
      biomeCache = biomes, registry = reg\<rparr>"

text \<open>\<open>addColumn\<close>: \<open>Inl\<close> is the error thrown by the parse, before the world is touched.\<close>

definition World_addColumn :: "World \<Rightarrow> int \<Rightarrow> int \<Rightarrow> chunk_json \<Rightarrow> string + World" where
  "World_addColumn w cx cz json =
     (case json of
        Inl message \<Rightarrow> Inl message
      | Inr chunk \<Rightarrow> Inr (w\<lparr>columns := (columns w)(columnKey cx cz \<mapsto> chunk)\<rparr>))"

definition World_removeColumn :: "World \<Rightarrow> int \<Rightarrow> int \<Rightarrow> World" where
  "World_removeColumn w cx cz =
     (case columns w (columnKey cx cz) of
        None \<Rightarrow> w
      | Some column \<Rightarrow> w\<lparr>columns := (columns w)(columnKey cx cz := None)\<rparr>)"

definition getColumn :: "World \<Rightarrow> int \<Rightarrow> int \<Rightarrow> Column option" where
  "getColumn w cx cz = columns w (columnKey cx cz)"

definition owning_column :: "Vec3 \<Rightarrow> column_key" where
  "owning_column pos = columnKey (floor16 (x pos) * 16) (floor16 (z pos) * 16)"

definition World_setBlockStateId :: "World \<Rightarrow> Vec3 \<Rightarrow> nat \<Rightarrow> bool \<times> World" where
  "World_setBlockStateId w pos sid =
     (case columns w (owning_column pos) of
        None \<Rightarrow> (False, w)
      | Some column \<Rightarrow>
          (True, w\<lparr>columns := (columns w)(owning_column pos \<mapsto>
             column_setBlockStateId column (posInChunk (floored pos)) sid)\<rparr>))"

text \<open>
  \<open>getBlock\<close>: \<open>None\<close> is \<open>null\<close>. The descriptor it returns is the object the cache
  holds, so writing \<open>position\<close> and \<open>biome\<close> into it changes the cached entry too.
\<close>

definition column_getBlock :: "World \<Rightarrow> Column \<Rightarrow> Vec3 \<Rightarrow> Block" where
  "column_getBlock w column p =
     \<lparr>stateId = column_getBlockStateId column p,
      shapes = registry w (column_getBlockStateId column p),
      isCube_field = False, position = None, biome = None\<rparr>"

definition biome_lookup :: "World \<Rightarrow> Column \<Rightarrow> Vec3 \<Rightarrow> string option" where
  "biome_lookup w column p =
     (case biomeCache w (biomeIds column (local_of p)) of
        None \<Rightarrow> biomeCache w 1
      | Some b \<Rightarrow> Some b)"

definition World_getBlock :: "World \<Rightarrow> Vec3 \<Rightarrow> Block option \<times> World" where
  "World_getBlock w pos =
     (case columns w (owning_column pos) of
        None \<Rightarrow> (None, w)
      | Some column \<Rightarrow>
          (let loc = floored pos;
               locInChunk = posInChunk loc;
               sid = column_getBlockStateId column locInChunk;
               (hit, c1) = LRU_get (blockCache w) sid;
               (block, c2) =
                 (case hit of
                    Some b \<Rightarrow> (b, c1)
                  | None \<Rightarrow>
                      (let b = column_getBlock w column locInChunk;
                           b' = b\<lparr>isCube_field := isCube (shapes b)\<rparr>
                       in (b', LRU_set c1 sid b')));
               block' = block\<lparr>position := Some loc,
                              biome := biome_lookup w column locInChunk\<rparr>
           in (Some block',
               w\<lparr>blockCache := c2\<lparr>cache := Map_set (cache c2) sid block'\<rparr>\<rparr>)))"

section \<open>The messages between the renderer and its workers\<close>

text \<open>
  Geometry buffers are opaque here (one handle for the typed arrays); \<open>sx, sy, sz\<close> is
  the mesh origin. The block states table is opaque as well.
\<close>

record geometry_data =
  buffers :: nat
  sx :: int
  sy :: int
  sz :: int

type_synonym block_states = nat

datatype to_worker =
    Reset
  | Version string
  | BlockStates block_states
  | Dirty Vec3 bool
  | Chunk int int chunk_json
  | UnloadChunk int int
  | BlockUpdate Vec3 nat

datatype from_worker =
    Geometry section_key geometry_data
  | SectionFinished section_key
  | Error "section_key option" string

section \<open>worker.js\<close>

text \<open>
  The module's globals are the fields of the worker's state; \<open>outbox\<close> collects what
  \<open>postMessage\<close> sends, oldest first. \<open>dirtySections\<close> is a plain object with string
  keys, which \<open>Object.keys\<close> lists in insertion order.
\<close>

record Worker =
  world :: "World option"
  blocksStates :: "block_states option"
  dirtySections :: "(section_key, bool) js_map"
  outbox :: "from_worker list"

definition postMessage :: "from_worker \<Rightarrow> Worker \<Rightarrow> Worker" where
  "postMessage m wk = wk\<lparr>outbox := outbox wk @ [m]\<rparr>"

text \<open>Whether \<open>chunk.sections[i]\<close> is there.\<close>

definition section_exists :: "Column \<Rightarrow> int \<Rightarrow> bool" where
  "section_exists column i = (section_at column i \<noteq> None)"

definition column_has_section :: "World \<Rightarrow> int \<Rightarrow> int \<Rightarrow> int \<Rightarrow> bool" where
  "column_has_section w X Y Z =
     (case getColumn w X Z of None \<Rightarrow> False | Some chunk \<Rightarrow> section_exists chunk (floor16 Y))"

definition worker_setSectionDirty :: "Worker \<Rightarrow> Vec3 \<Rightarrow> bool \<Rightarrow> Worker" where
  "worker_setSectionDirty wk pos val =
     (let X = floor16 (x pos) * 16; Y = floor16 (y pos) * 16; Z = floor16 (z pos) * 16;
          key = sectionKey X Y Z
      in if \<not> val then
           postMessage (SectionFinished key)
             (wk\<lparr>dirtySections := Map_delete (dirtySections wk) key\<rparr>)
         else if (case world wk of None \<Rightarrow> False | Some w \<Rightarrow> column_has_section w X Y Z) then
           wk\<lparr>dirtySections := Map_set (dirtySections wk) key val\<rparr>
         else postMessage (SectionFinished key) wk)"

definition clearAllDirtySections :: "Worker \<Rightarrow> Worker" where
  "clearAllDirtySections wk = wk\<lparr>dirtySections := []\<rparr>"

text \<open>
  \<open>handleMessage\<close>. Building a \<open>World\<close> for a version reads the version's chunk
  format, biome table and block registry from prismarine-chunk and minecraft-data: a
  parameter, \<open>Inl\<close> the message of the error thrown for a version they do not know,
  \<open>Inr\<close> the biome table and the registry. The two statements that can throw are
  \<open>new World\<close> and \<open>world.addColumn\<close>; the \<open>catch\<close> posts an \<open>error\<close> message without
  a key and leaves the worker as the throw found it.
\<close>

type_synonym version_data = "string \<Rightarrow> string + ((int \<rightharpoonup> string) \<times> (nat \<Rightarrow> rat list list))"

fun handleMessage :: "version_data \<Rightarrow> Worker \<Rightarrow> to_worker \<Rightarrow> Worker" where
  "handleMessage mc wk (Version v) =
     (case mc v of
        Inl message \<Rightarrow> postMessage (Error None message) wk
      | Inr (biomes, reg) \<Rightarrow> wk\<lparr>world := Some (World_new biomes reg)\<rparr>)"
| "handleMessage mc wk (BlockStates json) = wk\<lparr>blocksStates := Some json\<rparr>"
| "handleMessage mc wk (Dirty pos val) = worker_setSectionDirty wk pos val"
| "handleMessage mc wk (Chunk cx cz chunk) =
     (case world wk of None \<Rightarrow> wk
      | Some w \<Rightarrow>
          (case World_addColumn w cx cz chunk of
             Inl message \<Rightarrow> postMessage (Error None message) wk
           | Inr w' \<Rightarrow> wk\<lparr>world := Some w'\<rparr>))"
| "handleMessage mc wk (UnloadChunk cx cz) =
     (case world wk of None \<Rightarrow> wk
      | Some w \<Rightarrow> wk\<lparr>world := Some (World_removeColumn w cx cz)\<rparr>)"
| "handleMessage mc wk (BlockUpdate pos sid) =
     (case world wk of None \<Rightarrow> wk
      | Some w \<Rightarrow> wk\<lparr>world := Some (snd (World_setBlockStateId w (floored pos) sid))\<rparr>)"
| "handleMessage mc wk Reset =
     clearAllDirtySections (wk\<lparr>world := None, blocksStates := None\<rparr>)"

text \<open>
  The mesher \<open>getSectionGeometry\<close> is a collaborator: a parameter that either returns the
  geometry or throws an \<open>Error\<close>, whose message is the \<open>Inl\<close> value. One turn of the loop
  of \<open>processDirtySections\<close> over the key it was handed:
\<close>

type_synonym mesher = "int \<Rightarrow> int \<Rightarrow> int \<Rightarrow> World \<Rightarrow> block_states \<Rightarrow> string + geometry_data"

definition process_section ::
  "mesher \<Rightarrow> World \<Rightarrow> block_states \<Rightarrow> Worker \<Rightarrow> section_key \<Rightarrow> Worker" where
  "process_section getSectionGeometry w bs wk key =
     (case key of (X, Y, Z) \<Rightarrow>
        (let wk1 =
           (if column_has_section w X Y Z then
              (let wk0 = wk\<lparr>dirtySections := Map_delete (dirtySections wk) key\<rparr>
               in case getSectionGeometry X Y Z w bs of
                    Inr geo \<Rightarrow> postMessage (Geometry key geo) wk0
                  | Inl message \<Rightarrow> postMessage (Error (Some key) message) wk0)
            else wk)
         in postMessage (SectionFinished key) wk1))"

definition processDirtySections :: "mesher \<Rightarrow> Worker \<Rightarrow> Worker" where
  "processDirtySections getSectionGeometry wk =
     (case (world wk, blocksStates wk) of
        (Some w, Some bs) \<Rightarrow>
          foldl (process_section getSectionGeometry w bs) wk (Map_keys (dirtySections wk))
      | _ \<Rightarrow> wk)"

section \<open>worldrenderer.js\<close>

text \<open>
  The renderer's fields. \<open>workers\<close> holds, for each worker, the messages posted to it,
  oldest first; \<open>scene\<close> the ids of the objects in the scene; \<open>renderUpdateEmitter\<close> the
  listeners of its \<open>update\<close> event, each the handler of one pending promise, named by
  the promise's id; \<open>resolved\<close> the calls of \<open>resolve\<close>, in order; \<open>store\<close> the GPU
  objects. \<open>sectionMeshs\<close> is a plain object with string keys, listed in insertion order.
\<close>

record WorldRenderer =
  sectionMeshs :: "(section_key, Object3D) js_map"
  active :: bool
  version :: "string option"
  scene :: "ref list"
  loadedChunks :: "column_key set"
  sectionsOutstanding :: "section_key set"
  renderUpdateEmitter :: "nat list"
  blockStatesData :: "block_states option"
  currentTexture :: "ref option"
  pendingDirtySections :: "section_key set"
  material :: "ref option"
  workers :: "to_worker list list"
  workersActive :: bool
  store :: gpu
  resolved :: "nat list"
  next_ref :: nat

definition WORLD_HEIGHT :: int where "WORLD_HEIGHT = 256"
definition SECTION_HEIGHT :: int where "SECTION_HEIGHT = 16"
definition DEFAULT_NUM_WORKERS :: nat where "DEFAULT_NUM_WORKERS = 4"

text \<open>The constructor: the shared material is the first object allocated.\<close>

definition WorldRenderer_new :: "nat \<Rightarrow> WorldRenderer" where
  "WorldRenderer_new numWorkers =
     \<lparr>sectionMeshs = [], active = False, version = None, scene = [], loadedChunks = {},
      sectionsOutstanding = {}, renderUpdateEmitter = [], blockStatesData = None,
      currentTexture = None, pendingDirtySections = {}, material = Some 0,
      workers = replicate numWorkers [], workersActive = True,
      store = \<lparr>slots = (\<lambda>_. []), gpu_log = []\<rparr>, resolved = [], next_ref = 1\<rparr>"

definition post_all :: "to_worker \<Rightarrow> WorldRenderer \<Rightarrow> WorldRenderer" where
  "post_all m s = s\<lparr>workers := map (\<lambda>inbox. inbox @ [m]) (workers s)\<rparr>"

definition post_to :: "nat \<Rightarrow> to_worker \<Rightarrow> WorldRenderer \<Rightarrow> WorldRenderer" where
  "post_to i m s = s\<lparr>workers := (workers s)[i := workers s ! i @ [m]]\<rparr>"

text \<open>\<open>this.scene.remove(mesh); dispose3(mesh, { disposeTextures: false })\<close>\<close>

definition remove_and_dispose :: "Object3D \<Rightarrow> WorldRenderer \<Rightarrow> WorldRenderer" where
  "remove_and_dispose mesh s =
     s\<lparr>scene := remove1 (obj_id mesh) (scene s),
       store := snd (dispose3 \<lparr>disposeTextures = False, recursive = True\<rparr> mesh (store s))\<rparr>"

definition material_of :: "ref option \<Rightarrow> material_field" where
  "material_of m = (case m of None \<Rightarrow> NoMaterial | Some r \<Rightarrow> OneMaterial r)"

definition handleGeometry :: "WorldRenderer \<Rightarrow> section_key \<Rightarrow> geometry_data \<Rightarrow> WorldRenderer" where
  "handleGeometry s key geo =
     (let s1 = (case Map_get (sectionMeshs s) key of
                  None \<Rightarrow> s
                | Some mesh \<Rightarrow>
                    (remove_and_dispose mesh s)
                      \<lparr>sectionMeshs := Map_delete (sectionMeshs s) key\<rparr>)
      in case key of (X, Y, Z) \<Rightarrow>
           if columnKey X Z \<notin> loadedChunks s1 then s1
           else (let g = next_ref s1;
                     mesh = Object3D (g + 1) [] (Some g) (material_of (material s1)) False
                 in s1\<lparr>sectionMeshs := Map_set (sectionMeshs s1) key mesh,
                       scene := scene s1 @ [g + 1],
                       next_ref := g + 2\<rparr>))"

definition resetWorld :: "WorldRenderer \<Rightarrow> WorldRenderer" where
  "resetWorld s =
     (let s0 = s\<lparr>active := False\<rparr>;
          s1 = foldl (\<lambda>t (key, mesh).
                        (remove_and_dispose mesh t)
                          \<lparr>sectionMeshs := Map_delete (sectionMeshs t) key\<rparr>)
                     s0 (sectionMeshs s0);
          s2 = s1\<lparr>sectionMeshs := [], loadedChunks := {}, sectionsOutstanding := {}\<rparr>
      in post_all Reset s2)"

definition dispose :: "WorldRenderer \<Rightarrow> WorldRenderer" where
  "dispose s =
     (let s0 = s\<lparr>active := False, workersActive := False\<rparr>;
          s1 = foldl (\<lambda>t mesh. remove_and_dispose mesh t) s0 (map snd (sectionMeshs s0));
          s2 = s1\<lparr>sectionMeshs := []\<rparr>;
          s3 = s2\<lparr>store := disposeTexture (currentTexture s2) (store s2),
                  currentTexture := None\<rparr>;
          s4 = (case material s3 of
                  None \<Rightarrow> s3
                | Some m \<Rightarrow> s3\<lparr>store := material_dispose m (store s3), material := None\<rparr>)
      in s4\<lparr>workers := [], loadedChunks := {}, sectionsOutstanding := {},
            renderUpdateEmitter := []\<rparr>)"

text \<open>
  \<open>updateTexturesData\<close> only starts two loads; what it does to the renderer happens in
  their callbacks, which run later and are the two functions below. \<open>setVersion\<close>
  therefore ends where its own statements end.
\<close>

definition setVersion :: "WorldRenderer \<Rightarrow> string \<Rightarrow> WorldRenderer" where
  "setVersion s v =
     post_all (Version v) ((resetWorld (s\<lparr>version := Some v\<rparr>))\<lparr>active := True\<rparr>)"

datatype js_error = TypeError

text \<open>
  The callback of \<open>loadTexture\<close>, statement by statement. \<open>this.material.map = texture\<close>
  throws when the material is \<open>null\<close>; the renderer is returned as the throw leaves it.
\<close>

definition onTextureLoaded :: "WorldRenderer \<Rightarrow> ref \<Rightarrow> js_error option \<times> WorldRenderer" where
  "onTextureLoaded s texture =
     (let s1 = (case currentTexture s of
                  None \<Rightarrow> s
                | Some old \<Rightarrow> s\<lparr>store := disposeTexture (Some old) (store s)\<rparr>)
      in case material s1 of
           None \<Rightarrow> (Some TypeError, s1)
         | Some m \<Rightarrow>
             (None,
              s1\<lparr>store := (emit_gpu (MapAssigned m texture) (store s1))
                     \<lparr>slots := (slots (store s1))
                        (m := Map_set (slots (store s1) m) ''map'' texture)\<rparr>,
                 currentTexture := Some texture\<rparr>))"


text \<open>
  \<open>setSectionDirty\<close>. The index \<open>hash\<close> is inside \<open>workers\<close> whenever the list is not
  empty (lemma \<open>worker_hash_range\<close>), so \<open>workers[hash]\<close> is never \<open>undefined\<close>.
\<close>

definition setSectionDirty :: "WorldRenderer \<Rightarrow> Vec3 \<Rightarrow> bool \<Rightarrow> WorldRenderer" where
  "setSectionDirty s pos val =
     (if \<not> active s \<or> length (workers s) = 0 then s
      else (let key = section_key_of pos
            in if val \<and> key \<in> pendingDirtySections s then s
               else (let hash = worker_hash pos (length (workers s));
                         s1 = post_to (nat hash) (Dirty pos val) s
                     in if val then
                          s1\<lparr>sectionsOutstanding := insert key (sectionsOutstanding s1),
                             pendingDirtySections := insert key (pendingDirtySections s1)\<rparr>
                        else
                          s1\<lparr>sectionsOutstanding := sectionsOutstanding s1 - {key},
                             pendingDirtySections := pendingDirtySections s1 - {key}\<rparr>)))"

definition clearPendingDirtySections :: "WorldRenderer \<Rightarrow> WorldRenderer" where
  "clearPendingDirtySections s = s\<lparr>pendingDirtySections := {}\<rparr>"

text \<open>The heights \<open>y = 0, 16, ..., WORLD_HEIGHT - SECTION_HEIGHT\<close> of the two column loops.\<close>

definition section_heights :: "int list" where
  "section_heights = map (\<lambda>i. int i * SECTION_HEIGHT) [0 ..< nat (WORLD_HEIGHT div SECTION_HEIGHT)]"

text \<open>One turn of the loop of \<open>addColumn\<close>, at height \<open>h\<close>, and the method.\<close>

definition addColumn_section :: "int \<Rightarrow> int \<Rightarrow> WorldRenderer \<Rightarrow> int \<Rightarrow> WorldRenderer" where
  "addColumn_section cx cz t h =
     (let loc = \<lparr>x = cx, y = h, z = cz\<rparr>;
          t1 = setSectionDirty t loc True;
          t2 = setSectionDirty t1 (offset loc (-16) 0 0) True;
          t3 = setSectionDirty t2 (offset loc 16 0 0) True;
          t4 = setSectionDirty t3 (offset loc 0 0 (-16)) True
      in setSectionDirty t4 (offset loc 0 0 16) True)"

definition addColumn :: "WorldRenderer \<Rightarrow> int \<Rightarrow> int \<Rightarrow> chunk_json \<Rightarrow> WorldRenderer" where
  "addColumn s cx cz chunk =
     foldl (addColumn_section cx cz)
       (post_all (Chunk cx cz chunk)
          (s\<lparr>loadedChunks := insert (columnKey cx cz) (loadedChunks s)\<rparr>))
       section_heights"

text \<open>
  One turn of the loop of \<open>removeColumn\<close>, and the method. The mesh is looked up under
  the key built from the column's own coordinates.
\<close>

definition removeColumn_section :: "int \<Rightarrow> int \<Rightarrow> WorldRenderer \<Rightarrow> int \<Rightarrow> WorldRenderer" where
  "removeColumn_section cx cz t h =
     (let t1 = setSectionDirty t \<lparr>x = cx, y = h, z = cz\<rparr> False;
          key = sectionKey cx h cz;
          t2 = (case Map_get (sectionMeshs t1) key of
                  None \<Rightarrow> t1
                | Some mesh \<Rightarrow> remove_and_dispose mesh t1)
      in t2\<lparr>sectionMeshs := Map_delete (sectionMeshs t2) key\<rparr>)"

definition removeColumn :: "WorldRenderer \<Rightarrow> int \<Rightarrow> int \<Rightarrow> WorldRenderer" where
  "removeColumn s cx cz =
     foldl (removeColumn_section cx cz)
       (post_all (UnloadChunk cx cz)
          (s\<lparr>loadedChunks := loadedChunks s - {columnKey cx cz}\<rparr>))
       section_heights"

text \<open>
  \<open>setBlockStateId\<close>: the positions it hands to \<open>setSectionDirty\<close>, in the order of its
  statements, and the method itself.
\<close>

definition dirty_targets :: "Vec3 \<Rightarrow> Vec3 list" where
  "dirty_targets pos =
     [pos]
     @ (if x pos AND 15 = 0 then [offset pos (-16) 0 0] else [])
     @ (if x pos AND 15 = 15 then [offset pos 16 0 0] else [])
     @ (if y pos AND 15 = 0 then [offset pos 0 (-16) 0] else [])
     @ (if y pos AND 15 = 15 then [offset pos 0 16 0] else [])
     @ (if z pos AND 15 = 0 then [offset pos 0 0 (-16)] else [])
     @ (if z pos AND 15 = 15 then [offset pos 0 0 16] else [])"

definition setBlockStateId :: "WorldRenderer \<Rightarrow> Vec3 \<Rightarrow> nat \<Rightarrow> WorldRenderer" where
  "setBlockStateId s pos sid =
     foldl (\<lambda>t p. setSectionDirty t p True) (post_all (BlockUpdate pos sid) s) (dirty_targets pos)"





text \<open>
  \<open>Viewer.update\<close>, once per frame: its culling pass only sets the visibility of meshes,
  which is not part of this state; its last statement clears the pending markers.
\<close>

definition Viewer_update :: "WorldRenderer \<Rightarrow> WorldRenderer" where
  "Viewer_update s = clearPendingDirtySections s"

section \<open>Observations used by the properties\<close>

text \<open>The number of dirty-dispatch messages for a section key in the workers' inboxes.\<close>

fun is_dirty_for :: "section_key \<Rightarrow> to_worker \<Rightarrow> bool" where
  "is_dirty_for k (Dirty p v) = (v \<and> section_key_of p = k)"
| "is_dirty_for k _ = False"

definition dirty_dispatches :: "section_key \<Rightarrow> WorldRenderer \<Rightarrow> nat" where
  "dirty_dispatches k s = sum_list (map (\<lambda>inbox. length (filter (is_dirty_for k) inbox)) (workers s))"

text \<open>A run of \<open>setSectionDirty(pos, value)\<close> calls, in list order.\<close>

definition dirty_calls :: "WorldRenderer \<Rightarrow> (Vec3 \<times> bool) list \<Rightarrow> WorldRenderer" where
  "dirty_calls s cs = foldl (\<lambda>t c. setSectionDirty t (fst c) (snd c)) s cs"

text \<open>
  Whether a call is an unmark (flag \<open>false\<close>) of the section with key \<open>k\<close>.
\<close>

definition unmarks :: "section_key \<Rightarrow> Vec3 \<times> bool \<Rightarrow> bool" where
  "unmarks k c = (\<not> snd c \<and> section_key_of (fst c) = k)"

text \<open>
  The block state a query at \<open>pos\<close> reads, as \<open>getBlock\<close> reads it: from the owning
  column, at the position inside the column; \<open>None\<close> when the column is not loaded.
\<close>

definition World_blockStateAt :: "World \<Rightarrow> Vec3 \<Rightarrow> nat option" where
  "World_blockStateAt w pos =
     (case columns w (owning_column pos) of
        None \<Rightarrow> None
      | Some column \<Rightarrow> Some (column_getBlockStateId column (posInChunk (floored pos))))"

text \<open>Whether the height of \<open>pos\<close> lies inside the column's array of sections.\<close>

definition inside_column :: "Column \<Rightarrow> Vec3 \<Rightarrow> bool" where
  "inside_column column pos = (0 \<le> y pos \<and> y pos < 16 * int (length (sections column)))"

text \<open>A run of \<open>setSectionDirty(pos)\<close> calls, flag \<open>true\<close>, in list order.\<close>

definition mark_all :: "WorldRenderer \<Rightarrow> Vec3 list \<Rightarrow> WorldRenderer" where
  "mark_all s ps = foldl (\<lambda>t p. setSectionDirty t p True) s ps"






text \<open>Event \<open>a\<close> occurs in a log and event \<open>b\<close> occurs later than its first occurrence.\<close>

definition happens_before :: "gpu_event \<Rightarrow> gpu_event \<Rightarrow> gpu_event list \<Rightarrow> bool" where
  "happens_before a b evs = (b \<in> set (drop 1 (dropWhile (\<lambda>e. e \<noteq> a) evs)))"

text \<open>The completion signals among a worker's messages.\<close>

fun is_finished :: "from_worker \<Rightarrow> bool" where
  "is_finished (SectionFinished k) = True"
| "is_finished _ = False"

section \<open>Example inputs\<close>

text \<open>
  A world with two loaded columns, each with its lowest section only; a mesher that throws
  on the sections with \<open>x = 0\<close>; a worker whose queue holds a section the mesher fails on,
  a section without sub-chunk and a section that meshes.
\<close>

definition example_column :: Column where
  "example_column = \<lparr>sections = [Some (\<lambda>_. 0), None], biomeIds = (\<lambda>_. 1)\<rparr>"

definition example_world :: World where
  "example_world =
     (World_new Map.empty (\<lambda>_. []))
       \<lparr>columns := [columnKey 0 0 \<mapsto> example_column, columnKey 32 0 \<mapsto> example_column]\<rparr>"

definition example_mesher :: mesher where
  "example_mesher X Y Z w bs =
     (if X = 0 then Inl ''boom'' else Inr \<lparr>buffers = 1, sx = X, sy = Y, sz = Z\<rparr>)"

definition example_worker :: Worker where
  "example_worker =
     \<lparr>world = Some example_world, blocksStates = Some 0,
      dirtySections = [((0, 0, 0), True), ((0, 16, 0), True), ((32, 0, 0), True)],
      outbox = []\<rparr>"

text \<open>
  A renderer with two workers after \<open>setVersion\<close>, the arrival of texture 100, the load of
  column (0, 0) and the arrival of the geometry of section (0, 0, 0): it holds one mesh.
\<close>

definition example_renderer :: WorldRenderer where
  "example_renderer =
     handleGeometry
       (addColumn (snd (onTextureLoaded (setVersion (WorldRenderer_new 2) ''1.16'') 100))
          0 0 (Inr example_column))
       (0, 0, 0) \<lparr>buffers = 1, sx = 0, sy = 0, sz = 0\<rparr>"

section \<open>Properties\<close>

subsection \<open>Routing\<close>

lemma js_rem_nonneg: "0 \<le> a \<Longrightarrow> js_rem a n = a mod \<bar>n\<bar>"
  by (cases "a = 0") (simp_all add: js_rem_def)

lemma js_rem_bounds:
  assumes "0 < n"
  shows "- n < js_rem a n" and "js_rem a n < n"
proof -
  have m: "0 \<le> \<bar>a\<bar> mod n" "\<bar>a\<bar> mod n < n" using assms by simp_all
  have s: "js_rem a n = \<bar>a\<bar> mod n \<or> js_rem a n = - (\<bar>a\<bar> mod n)"
    using assms by (cases "a < 0"; cases "a = 0") (simp_all add: js_rem_def)
  show "- n < js_rem a n" using m s assms by linarith
  show "js_rem a n < n" using m s assms by linarith
qed

lemma js_rem_cong_mod:
  assumes "0 < n"
  shows "js_rem a n mod n = a mod n"
proof (cases "a < 0")
  case True
  then have "js_rem a n = - ((- a) mod n)" using assms by (simp add: js_rem_def)
  then show ?thesis by (simp add: mod_minus_eq)
next
  case False
  then have "js_rem a n = a mod n" using assms js_rem_nonneg [of a n] by simp
  then show ?thesis by simp
qed

lemma mod_js_eq_mod:
  assumes "0 < n"
  shows "mod_js a n = a mod n"
proof -
  have pos: "0 \<le> js_rem a n + n" using js_rem_bounds(1) [OF assms, of a] by simp
  have "mod_js a n = (js_rem a n + n) mod n"
    using js_rem_nonneg [OF pos, of n] assms by (simp add: mod_js_def)
  also have "\<dots> = js_rem a n mod n" by simp
  also have "\<dots> = a mod n" by (rule js_rem_cong_mod [OF assms])
  finally show ?thesis .
qed

lemma worker_hash_eq:
  assumes "0 < n"
  shows "worker_hash p n = (x p div 16 + y p div 16 + z p div 16) mod int n"
  using assms by (simp add: worker_hash_def floor16_def mod_js_eq_mod)

lemma worker_hash_range:
  assumes "0 < n"
  shows "0 \<le> worker_hash p n" and "nat (worker_hash p n) < n"
  using assms by (simp_all add: worker_hash_eq nat_less_iff)

lemma floor16_of_key: "floor16 a * 16 = floor16 b * 16 \<longleftrightarrow> floor16 a = floor16 b"
  by simp

lemma same_section_same_hash:
  assumes "section_key_of q = section_key_of p"
  shows "worker_hash q n = worker_hash p n"
  using assms by (simp add: section_key_of_def sectionKey_def worker_hash_def)

text \<open>
  C4. For integer block coordinates, negative ones included, and \<open>n > 0\<close> workers, the
  index \<open>setSectionDirty\<close> computes is the true modulo
  \<open>(floor(x/16) + floor(y/16) + floor(z/16)) mod n\<close>, it lies in \<open>0 ..< n\<close>, two positions
  of one section get the same index, and the dirty message of a call that dispatches goes
  to the worker at that index and to no other. The index depends on the position and the
  number of workers only.
\<close>

theorem worker_index_is_true_modulo:
  assumes "0 < n"
  shows "worker_hash p n = (x p div 16 + y p div 16 + z p div 16) mod int n
       \<and> 0 \<le> worker_hash p n \<and> worker_hash p n < int n
       \<and> (section_key_of q = section_key_of p \<longrightarrow> worker_hash q n = worker_hash p n)
       \<and> (active s \<and> length (workers s) = n
            \<and> \<not> (v \<and> section_key_of p \<in> pendingDirtySections s)
          \<longrightarrow> workers (setSectionDirty s p v)
              = (workers s)[nat (worker_hash p n)
                  := workers s ! nat (worker_hash p n) @ [Dirty p v]])"
proof -
  have a: "worker_hash p n = (x p div 16 + y p div 16 + z p div 16) mod int n"
    by (rule worker_hash_eq [OF assms])
  have b: "0 \<le> worker_hash p n" "worker_hash p n < int n"
    using assms by (simp_all add: a)
  have c: "section_key_of q = section_key_of p \<longrightarrow> worker_hash q n = worker_hash p n"
    by (rule impI, rule same_section_same_hash)
  have d: "active s \<and> length (workers s) = n
            \<and> \<not> (v \<and> section_key_of p \<in> pendingDirtySections s)
          \<longrightarrow> workers (setSectionDirty s p v)
              = (workers s)[nat (worker_hash p n)
                  := workers s ! nat (worker_hash p n) @ [Dirty p v]]"
    using assms by (auto simp: setSectionDirty_def post_to_def Let_def)
  show ?thesis using a b c d by blast
qed

theorem worker_index_is_true_modulo_witness:
  "worker_hash \<lparr>x = - 1, y = 5, z = - 17\<rparr> 4 = 1
   \<and> worker_hash \<lparr>x = - 16, y = 15, z = - 32\<rparr> 4 = 1
   \<and> workers (setSectionDirty ((WorldRenderer_new 4)\<lparr>active := True\<rparr>)
                \<lparr>x = - 1, y = 5, z = - 17\<rparr> True)
     = [[], [Dirty \<lparr>x = - 1, y = 5, z = - 17\<rparr> True], [], []]"
proof -
  let ?p = "\<lparr>x = - 1, y = 5, z = - 17\<rparr>"
  let ?q = "\<lparr>x = - 16, y = 15, z = - 32\<rparr>"
  let ?s = "(WorldRenderer_new 4)\<lparr>active := True\<rparr>"
  have k: "section_key_of ?q = section_key_of ?p"
    by (simp add: section_key_of_def sectionKey_def floor16_def)
  have n: "(0::nat) < 4" by simp
  have w: "workers ?s = [[], [], [], []]"
    by (simp add: WorldRenderer_new_def numeral_eq_Suc)
  have pre: "active ?s \<and> length (workers ?s) = 4
             \<and> \<not> (True \<and> section_key_of ?p \<in> pendingDirtySections ?s)"
    by (simp add: WorldRenderer_new_def)
  note t = worker_index_is_true_modulo [OF n, of ?p ?q ?s True]
  have h: "worker_hash ?p 4 = 1" using t by simp
  have hq: "worker_hash ?q 4 = 1" using t k h by simp
  have d: "workers (setSectionDirty ?s ?p True)
           = (workers ?s)[nat (worker_hash ?p 4) := workers ?s ! nat (worker_hash ?p 4) @ [Dirty ?p True]]"
    using t pre by blast
  show ?thesis using h hq d unfolding w by simp
qed

subsection \<open>The inactive renderer\<close>

lemma resetWorld_inactive: "\<not> active (resetWorld s)"
proof -
  have f: "active (foldl (\<lambda>t (key, mesh).
                        (remove_and_dispose mesh t)
                          \<lparr>sectionMeshs := Map_delete (sectionMeshs t) key\<rparr>) t0 ms) = active t0"
    for t0 :: WorldRenderer and ms
    by (induction ms arbitrary: t0) (simp_all add: remove_and_dispose_def split: prod.splits)
  show ?thesis by (simp add: resetWorld_def Let_def post_all_def f)
qed

lemma dispose_no_workers: "workers (dispose s) = []"
  by (simp add: dispose_def Let_def split: option.splits)

text \<open>
  C10. While the renderer is not active or has no worker, \<open>setSectionDirty\<close> returns the
  renderer as it got it, for every position and flag: no message is posted and the
  outstanding and pending sets are the same. That is the renderer's condition after its
  constructor (before \<open>setVersion\<close>), after \<open>resetWorld\<close> and after \<open>dispose\<close>.
\<close>

theorem setSectionDirty_inactive_noop:
  "(\<not> active s \<or> workers s = [] \<longrightarrow> setSectionDirty s pos val = s)
   \<and> setSectionDirty (WorldRenderer_new k) pos val = WorldRenderer_new k
   \<and> setSectionDirty (resetWorld s) pos val = resetWorld s
   \<and> setSectionDirty (dispose s) pos val = dispose s"
  using resetWorld_inactive [of s] dispose_no_workers [of s]
  by (simp add: setSectionDirty_def WorldRenderer_new_def)

theorem setSectionDirty_inactive_noop_witness:
  "\<not> active (WorldRenderer_new 2)
   \<and> workers (setSectionDirty (WorldRenderer_new 2) \<lparr>x = 3, y = 70, z = - 5\<rparr> True) = [[], []]
   \<and> sectionsOutstanding (setSectionDirty (WorldRenderer_new 2) \<lparr>x = 3, y = 70, z = - 5\<rparr> True) = {}
   \<and> pendingDirtySections (setSectionDirty (WorldRenderer_new 2) \<lparr>x = 3, y = 70, z = - 5\<rparr> False) = {}"
proof -
  have i: "\<not> active (WorldRenderer_new 2)" by (simp add: WorldRenderer_new_def)
  have t: "setSectionDirty (WorldRenderer_new 2) \<lparr>x = 3, y = 70, z = - 5\<rparr> True = WorldRenderer_new 2"
    using setSectionDirty_inactive_noop [of "WorldRenderer_new 2" "\<lparr>x = 3, y = 70, z = - 5\<rparr>" True] i
    by blast
  have f: "setSectionDirty (WorldRenderer_new 2) \<lparr>x = 3, y = 70, z = - 5\<rparr> False = WorldRenderer_new 2"
    using setSectionDirty_inactive_noop [of "WorldRenderer_new 2" "\<lparr>x = 3, y = 70, z = - 5\<rparr>" False] i
    by blast
  show ?thesis unfolding t f by (simp add: WorldRenderer_new_def numeral_eq_Suc)
qed

subsection \<open>Dirty marking\<close>

lemma setSectionDirty_active [simp]: "active (setSectionDirty s p v) = active s"
  by (simp add: setSectionDirty_def post_to_def Let_def)

lemma setSectionDirty_nworkers [simp]: "length (workers (setSectionDirty s p v)) = length (workers s)"
  by (simp add: setSectionDirty_def post_to_def Let_def)

lemma mark_all_Nil [simp]: "mark_all s [] = s"
  by (simp add: mark_all_def)

lemma mark_all_Cons [simp]: "mark_all s (p # ps) = mark_all (setSectionDirty s p True) ps"
  by (simp add: mark_all_def)

lemma mark_all_append: "mark_all s (ps @ qs) = mark_all (mark_all s ps) qs"
  by (simp add: mark_all_def)

lemma mark_all_active [simp]: "active (mark_all s ps) = active s"
  by (induction ps arbitrary: s) simp_all

lemma mark_all_nworkers [simp]: "length (workers (mark_all s ps)) = length (workers s)"
  by (induction ps arbitrary: s) simp_all

lemma setSectionDirty_True_pending:
  assumes "active s" "workers s \<noteq> []"
  shows "pendingDirtySections (setSectionDirty s p True) = insert (section_key_of p) (pendingDirtySections s)"
  using assms by (auto simp: setSectionDirty_def post_to_def Let_def)



lemma dispatch_count_update:
  assumes "i < length ws"
  shows "sum_list (map (\<lambda>inbox. length (filter P inbox)) (ws[i := ws ! i @ [m]]))
         = sum_list (map (\<lambda>inbox. length (filter P inbox)) ws) + (if P m then 1 else 0)"
  using assms
proof (induction ws arbitrary: i)
  case Nil
  then show ?case by simp
next
  case (Cons w ws)
  then show ?case by (cases i) simp_all
qed

lemma setSectionDirty_dispatches:
  assumes "active s" "workers s \<noteq> []"
  shows "dirty_dispatches k (setSectionDirty s p True)
         = dirty_dispatches k s
           + (if section_key_of p = k \<and> k \<notin> pendingDirtySections s then 1 else 0)"
proof -
  have r: "nat (worker_hash p (length (workers s))) < length (workers s)"
    using assms(2) worker_hash_range(2) [of "length (workers s)" p] by simp
  show ?thesis
    using assms r
    by (auto simp: setSectionDirty_def post_to_def Let_def dirty_dispatches_def dispatch_count_update)
qed

lemma mark_all_dispatches_pending:
  assumes "active s" "workers s \<noteq> []" "k \<in> pendingDirtySections s"
  shows "dirty_dispatches k (mark_all s ps) = dirty_dispatches k s"
  using assms
proof (induction ps arbitrary: s)
  case Nil
  then show ?case by simp
next
  case (Cons p ps)
  have w: "workers (setSectionDirty s p True) \<noteq> []"
    using Cons.prems(2) setSectionDirty_nworkers [of s p True] by (metis length_0_conv)
  have k: "k \<in> pendingDirtySections (setSectionDirty s p True)"
    using Cons.prems by (simp add: setSectionDirty_True_pending)
  have "dirty_dispatches k (mark_all (setSectionDirty s p True) ps)
        = dirty_dispatches k (setSectionDirty s p True)"
    using Cons.IH [OF _ w k] Cons.prems(1) by simp
  then show ?case using Cons.prems by (simp add: setSectionDirty_dispatches)
qed

lemma two_marks_workers:
  assumes "active s" "workers s \<noteq> []" "section_key_of p2 = section_key_of p1"
    and "section_key_of p1 \<notin> pendingDirtySections s"
  shows "workers (setSectionDirty (setSectionDirty s p1 True) p2 True)
         = (workers s)[nat (worker_hash p1 (length (workers s)))
              := workers s ! nat (worker_hash p1 (length (workers s))) @ [Dirty p1 True]]"
  using assms by (auto simp: setSectionDirty_def post_to_def Let_def)

lemma and_15_mod: "(a::int) AND 15 = a mod 16"
proof -
  have "(15::int) = mask 4" by (simp add: mask_eq_exp_minus_1)
  then have "a AND 15 = take_bit 4 a" by (simp add: take_bit_eq_mask)
  then show ?thesis by (simp add: take_bit_eq_mod)
qed



lemma post_all_active [simp]: "active (post_all m s) = active s"
  by (simp add: post_all_def)

lemma post_all_workers_nonempty [simp]: "workers (post_all m s) = [] \<longleftrightarrow> workers s = []"
  by (simp add: post_all_def)

lemma post_all_pending [simp]: "pendingDirtySections (post_all m s) = pendingDirtySections s"
  by (simp add: post_all_def)

lemma post_all_outstanding [simp]: "sectionsOutstanding (post_all m s) = sectionsOutstanding s"
  by (simp add: post_all_def)


lemma setSectionDirty_False_pending:
  assumes "active s" "workers s \<noteq> []"
  shows "pendingDirtySections (setSectionDirty s p False) = pendingDirtySections s - {section_key_of p}"
  using assms by (auto simp: setSectionDirty_def post_to_def Let_def)

lemma setSectionDirty_False_dispatches:
  assumes "active s" "workers s \<noteq> []"
  shows "dirty_dispatches k (setSectionDirty s p False) = dirty_dispatches k s"
proof -
  have r: "nat (worker_hash p (length (workers s))) < length (workers s)"
    using assms(2) worker_hash_range(2) [of "length (workers s)" p] by simp
  show ?thesis
    using assms r
    by (simp add: setSectionDirty_def post_to_def Let_def dirty_dispatches_def dispatch_count_update)
qed

lemma dirty_call_keeps_marker:
  assumes "active s" "workers s \<noteq> []" "k \<in> pendingDirtySections s" "\<not> unmarks k c"
  shows "dirty_dispatches k (setSectionDirty s (fst c) (snd c)) = dirty_dispatches k s"
    and "k \<in> pendingDirtySections (setSectionDirty s (fst c) (snd c))"
proof -
  show "dirty_dispatches k (setSectionDirty s (fst c) (snd c)) = dirty_dispatches k s"
    using assms
    by (cases "snd c") (simp_all add: setSectionDirty_dispatches setSectionDirty_False_dispatches)
  show "k \<in> pendingDirtySections (setSectionDirty s (fst c) (snd c))"
    using assms
    by (cases "snd c")
       (auto simp: setSectionDirty_True_pending setSectionDirty_False_pending unmarks_def)
qed

lemma dirty_calls_keep_marker:
  assumes "active s" "workers s \<noteq> []" "k \<in> pendingDirtySections s"
    and "list_all (\<lambda>c. \<not> unmarks k c) cs"
  shows "dirty_dispatches k (dirty_calls s cs) = dirty_dispatches k s
       \<and> k \<in> pendingDirtySections (dirty_calls s cs)
       \<and> active (dirty_calls s cs) \<and> workers (dirty_calls s cs) \<noteq> []"
  using assms
proof (induction cs arbitrary: s)
  case Nil
  then show ?case by (simp add: dirty_calls_def)
next
  case (Cons c cs)
  let ?t = "setSectionDirty s (fst c) (snd c)"
  have n: "\<not> unmarks k c" and r: "list_all (\<lambda>c. \<not> unmarks k c) cs" using Cons.prems(4) by simp_all
  have a: "active ?t" using Cons.prems(1) by simp
  have w: "workers ?t \<noteq> []"
    using Cons.prems(2) setSectionDirty_nworkers [of s "fst c" "snd c"] by (metis length_0_conv)
  note m = dirty_call_keeps_marker [OF Cons.prems(1,2,3) n]
  have e: "dirty_calls s (c # cs) = dirty_calls ?t cs" by (simp add: dirty_calls_def)
  show ?case unfolding e using Cons.IH [OF a w m(2) r] m(1) by simp
qed

text \<open>
  C5, as the code has it. On an active renderer with workers, take a section that has no
  pending marker (as at the start of a frame, after the markers were cleared). Two
  \<open>setSectionDirty(pos, true)\<close> calls for positions of that section post exactly one dirty
  message, to the worker the section is assigned to, provided no
  \<open>clearPendingDirtySections\<close> and no \<open>setSectionDirty(pos, false)\<close> for that section comes
  between them; any other \<open>setSectionDirty\<close> calls may. \<open>clearPendingDirtySections\<close>, which
  \<open>Viewer.update\<close> calls once per frame, empties the marker set.
\<close>

theorem same_section_twice_one_dispatch:
  assumes "active s" and "workers s \<noteq> []"
    and "section_key_of p2 = section_key_of p1"
    and "section_key_of p1 \<notin> pendingDirtySections s"
    and "list_all (\<lambda>c. \<not> unmarks (section_key_of p1) c) cs"
  shows "nat (worker_hash p1 (length (workers s))) < length (workers s)
       \<and> workers (setSectionDirty (setSectionDirty s p1 True) p2 True)
         = (workers s)[nat (worker_hash p1 (length (workers s)))
              := workers s ! nat (worker_hash p1 (length (workers s))) @ [Dirty p1 True]]
       \<and> dirty_dispatches (section_key_of p1)
            (setSectionDirty (dirty_calls (setSectionDirty s p1 True) cs) p2 True)
         = dirty_dispatches (section_key_of p1) s + 1
       \<and> pendingDirtySections (clearPendingDirtySections s') = {}
       \<and> pendingDirtySections (Viewer_update s') = {}"
proof -
  let ?k = "section_key_of p1"
  let ?s1 = "setSectionDirty s p1 True"
  have r: "nat (worker_hash p1 (length (workers s))) < length (workers s)"
    using assms(2) worker_hash_range(2) [of "length (workers s)" p1] by simp
  have w: "workers ?s1 \<noteq> []"
    using assms(2) setSectionDirty_nworkers [of s p1 True] by (metis length_0_conv)
  have k: "?k \<in> pendingDirtySections ?s1"
    using assms by (simp add: setSectionDirty_True_pending)
  have a: "active ?s1" using assms(1) by simp
  note m = dirty_calls_keep_marker [OF a w k assms(5)]
  have "dirty_dispatches ?k (setSectionDirty (dirty_calls ?s1 cs) p2 True)
        = dirty_dispatches ?k (dirty_calls ?s1 cs)"
    using m assms(3) by (simp add: setSectionDirty_dispatches)
  also have "\<dots> = dirty_dispatches ?k ?s1" using m by simp
  also have "\<dots> = dirty_dispatches ?k s + 1"
    using assms by (simp add: setSectionDirty_dispatches)
  finally have c: "dirty_dispatches ?k (setSectionDirty (dirty_calls ?s1 cs) p2 True)
        = dirty_dispatches ?k s + 1" .
  have cl: "pendingDirtySections (clearPendingDirtySections s') = {}"
    "pendingDirtySections (Viewer_update s') = {}"
    by (simp_all add: clearPendingDirtySections_def Viewer_update_def)
  show ?thesis using r two_marks_workers [OF assms(1-4)] c cl by simp
qed

theorem same_section_twice_one_dispatch_witness:
  "workers (setSectionDirty
      (setSectionDirty ((WorldRenderer_new 2)\<lparr>active := True\<rparr>) \<lparr>x = 15, y = 64, z = 0\<rparr> True)
      \<lparr>x = 3, y = 70, z = 9\<rparr> True)
   = [[Dirty \<lparr>x = 15, y = 64, z = 0\<rparr> True], []]
   \<and> dirty_dispatches (0, 64, 0)
        (setSectionDirty
           (dirty_calls (setSectionDirty ((WorldRenderer_new 2)\<lparr>active := True\<rparr>)
                     \<lparr>x = 15, y = 64, z = 0\<rparr> True)
              [(\<lparr>x = 100, y = 0, z = 0\<rparr>, True), (\<lparr>x = 0, y = 0, z = 0\<rparr>, False)])
           \<lparr>x = 3, y = 70, z = 9\<rparr> True) = 1"
proof -
  let ?s = "(WorldRenderer_new 2)\<lparr>active := True\<rparr>"
  let ?p1 = "\<lparr>x = 15, y = 64, z = 0\<rparr>"
  let ?p2 = "\<lparr>x = 3, y = 70, z = 9\<rparr>"
  let ?cs = "[(\<lparr>x = 100, y = 0, z = 0\<rparr>, True), (\<lparr>x = 0, y = 0, z = 0\<rparr>, False)]"
  have h1: "active ?s" by (simp add: WorldRenderer_new_def)
  have ws: "workers ?s = [[], []]" by (simp add: WorldRenderer_new_def numeral_eq_Suc)
  have h2: "workers ?s \<noteq> []" unfolding ws by simp
  have k1: "section_key_of ?p1 = (0, 64, 0)"
    by (simp add: section_key_of_def sectionKey_def floor16_def)
  have k2: "section_key_of ?p2 = (0, 64, 0)"
    by (simp add: section_key_of_def sectionKey_def floor16_def)
  have h3: "section_key_of ?p2 = section_key_of ?p1" unfolding k1 k2 by simp
  have h4: "section_key_of ?p1 \<notin> pendingDirtySections ?s" by (simp add: WorldRenderer_new_def)
  have h5: "list_all (\<lambda>c. \<not> unmarks (section_key_of ?p1) c) ?cs"
    unfolding k1 by (simp add: unmarks_def section_key_of_def sectionKey_def floor16_def)
  have len: "length (workers ?s) = 2" unfolding ws by simp
  have hh: "worker_hash ?p1 (length (workers ?s)) = 0"
    unfolding len using worker_hash_eq [of 2 ?p1] by simp
  have d0: "dirty_dispatches (0, 64, 0) ?s = 0"
    unfolding dirty_dispatches_def ws by simp
  note t = same_section_twice_one_dispatch [OF h1 h2 h3 h4 h5, of ?s]
  show ?thesis using t [unfolded hh] d0 unfolding ws k1 by simp
qed

theorem unmark_between_marks_counterexample:
  "dirty_dispatches (0, 0, 0)
     (setSectionDirty
        (setSectionDirty
           (setSectionDirty (setVersion (WorldRenderer_new 2) ''1.16'') \<lparr>x = 0, y = 0, z = 0\<rparr> True)
           \<lparr>x = 0, y = 0, z = 0\<rparr> False)
        \<lparr>x = 0, y = 0, z = 0\<rparr> True) = 2"
proof -
  let ?s = "setVersion (WorldRenderer_new 2) ''1.16''"
  let ?p = "\<lparr>x = 0, y = 0, z = 0\<rparr>"
  let ?s1 = "setSectionDirty ?s ?p True"
  let ?s2 = "setSectionDirty ?s1 ?p False"
  have k: "section_key_of ?p = (0, 0, 0)"
    by (simp add: section_key_of_def sectionKey_def floor16_def)
  have sv: "?s = (WorldRenderer_new 2)
               \<lparr>version := Some ''1.16'', active := True,
                workers := [[Reset, Version ''1.16''], [Reset, Version ''1.16'']]\<rparr>"
    by (simp add: setVersion_def resetWorld_def Let_def WorldRenderer_new_def post_all_def
          numeral_eq_Suc)
  have a: "active ?s" "workers ?s \<noteq> []" "pendingDirtySections ?s = {}"
    unfolding sv by (simp_all add: WorldRenderer_new_def)
  have d0: "dirty_dispatches (0, 0, 0) ?s = 0"
    unfolding sv by (simp add: dirty_dispatches_def)
  have a1: "active ?s1" "workers ?s1 \<noteq> []"
    using a setSectionDirty_nworkers [of ?s ?p True] by (simp, metis length_0_conv)
  have p1: "pendingDirtySections ?s1 = {(0, 0, 0)}"
    using a by (simp add: setSectionDirty_True_pending k)
  have d1: "dirty_dispatches (0, 0, 0) ?s1 = 1"
    using a d0 by (simp add: setSectionDirty_dispatches k)
  have a2: "active ?s2" "workers ?s2 \<noteq> []"
    using a1 setSectionDirty_nworkers [of ?s1 ?p False] by (simp, metis length_0_conv)
  have p2: "pendingDirtySections ?s2 = {}"
    using a1 p1 by (simp add: setSectionDirty_False_pending k)
  have d2: "dirty_dispatches (0, 0, 0) ?s2 = 1"
    using a1 d1 by (simp add: setSectionDirty_False_dispatches)
  show ?thesis
    using a2 p2 d2 by (simp add: setSectionDirty_dispatches k)
qed



subsection \<open>The worker's drain\<close>

text \<open>What one drained key adds to the outbox, read off \<open>process_section\<close>.\<close>

lemma process_section_outbox:
  "outbox (process_section g w bs wk key)
   = outbox wk
     @ (if column_has_section w (fst key) (fst (snd key)) (snd (snd key)) then
          (case g (fst key) (fst (snd key)) (snd (snd key)) w bs of
             Inr geo \<Rightarrow> [Geometry key geo]
           | Inl message \<Rightarrow> [Error (Some key) message])
        else [])
     @ [SectionFinished key]"
  by (cases key) (simp add: process_section_def postMessage_def Let_def split: sum.splits)

lemma drain_outbox:
  "outbox (foldl (process_section g w bs) wk keys)
   = outbox wk
     @ concat (map (\<lambda>key.
         (if column_has_section w (fst key) (fst (snd key)) (snd (snd key)) then
            (case g (fst key) (fst (snd key)) (snd (snd key)) w bs of
               Inr geo \<Rightarrow> [Geometry key geo]
             | Inl message \<Rightarrow> [Error (Some key) message])
          else [])
         @ [SectionFinished key]) keys)"
  by (induction keys arbitrary: wk) (simp_all add: process_section_outbox)

lemma finished_of_drain:
  "filter is_finished (concat (map (\<lambda>key.
         (if c key then (case r key of Inr geo \<Rightarrow> [Geometry key geo]
                          | Inl message \<Rightarrow> [Error (Some key) message])
          else [])
         @ [SectionFinished key]) keys))
   = map SectionFinished keys"
  by (induction keys) (auto split: sum.splits)

text \<open>
  C8. In a drain (world and block states table present), the messages the worker posts
  extend its outbox; among them the completion signals \<open>sectionFinished\<close> are exactly one
  per drained key, in the order of the queue, each carrying its key: for a section whose
  geometry was built (a \<open>geometry\<close> message is posted too), for one where the mesher threw
  (an \<open>error\<close> message with the key is posted too) and for one skipped because its column
  or sub-chunk does not exist. The drain is total: a throwing mesher stops nothing, every
  key of the queue is reached.
\<close>

theorem drain_signals_every_section:
  assumes "world wk = Some w" and "blocksStates wk = Some bs"
  shows "(\<exists>new. outbox (processDirtySections g wk) = outbox wk @ new
            \<and> filter is_finished new = map SectionFinished (Map_keys (dirtySections wk))
            \<and> (\<forall>key \<in> set (Map_keys (dirtySections wk)).
                  case key of (X, Y, Z) \<Rightarrow>
                    SectionFinished key \<in> set new
                    \<and> (column_has_section w X Y Z \<longrightarrow>
                          (case g X Y Z w bs of
                             Inr geo \<Rightarrow> Geometry key geo \<in> set new
                           | Inl message \<Rightarrow> Error (Some key) message \<in> set new))))"
proof -
  define emit where "emit = (\<lambda>key.
         (if column_has_section w (fst key) (fst (snd key)) (snd (snd key)) then
            (case g (fst key) (fst (snd key)) (snd (snd key)) w bs of
               Inr geo \<Rightarrow> [Geometry key geo]
             | Inl message \<Rightarrow> [Error (Some key) message])
          else [])
         @ [SectionFinished key])"
  define keys where "keys = Map_keys (dirtySections wk)"
  define new where "new = concat (map emit keys)"
  have o: "outbox (processDirtySections g wk) = outbox wk @ new"
    using assms by (simp add: processDirtySections_def drain_outbox new_def emit_def keys_def)
  have f: "filter is_finished new = map SectionFinished keys"
    unfolding new_def emit_def
    by (rule finished_of_drain
          [of "\<lambda>key. column_has_section w (fst key) (fst (snd key)) (snd (snd key))"
              "\<lambda>key. g (fst key) (fst (snd key)) (snd (snd key)) w bs"])
  have e: "\<forall>key \<in> set keys.
             case key of (X, Y, Z) \<Rightarrow>
               SectionFinished key \<in> set new
               \<and> (column_has_section w X Y Z \<longrightarrow>
                     (case g X Y Z w bs of
                        Inr geo \<Rightarrow> Geometry key geo \<in> set new
                      | Inl message \<Rightarrow> Error (Some key) message \<in> set new))"
  proof
    fix key assume k: "key \<in> set keys"
    obtain X Y Z where xyz: "key = (X, Y, Z)" by (cases key) auto
    have m: "\<And>e. e \<in> set (emit key) \<Longrightarrow> e \<in> set new"
      using k unfolding new_def by auto
    have 1: "SectionFinished key \<in> set new"
      by (rule m) (simp add: emit_def)
    have 2: "Geometry key geo \<in> set new"
      if "column_has_section w X Y Z" "g X Y Z w bs = Inr geo" for geo
      by (rule m) (use that in \<open>simp add: emit_def xyz\<close>)
    have 3: "Error (Some key) message \<in> set new"
      if "column_has_section w X Y Z" "g X Y Z w bs = Inl message" for message
      by (rule m) (use that in \<open>simp add: emit_def xyz\<close>)
    show "case key of (X, Y, Z) \<Rightarrow>
               SectionFinished key \<in> set new
               \<and> (column_has_section w X Y Z \<longrightarrow>
                     (case g X Y Z w bs of
                        Inr geo \<Rightarrow> Geometry key geo \<in> set new
                      | Inl message \<Rightarrow> Error (Some key) message \<in> set new))"
      using 1 2 3 unfolding xyz by (simp split: sum.splits)
  qed
  show ?thesis using o f e unfolding keys_def by blast
qed

theorem drain_signals_every_section_witness:
  "world example_worker = Some example_world \<and> blocksStates example_worker = Some 0
   \<and> filter is_finished (outbox (processDirtySections example_mesher example_worker))
     = [SectionFinished (0, 0, 0), SectionFinished (0, 16, 0), SectionFinished (32, 0, 0)]
   \<and> Error (Some (0, 0, 0)) ''boom''
       \<in> set (outbox (processDirtySections example_mesher example_worker))
   \<and> Geometry (32, 0, 0) \<lparr>buffers = 1, sx = 32, sy = 0, sz = 0\<rparr>
       \<in> set (outbox (processDirtySections example_mesher example_worker))"
proof -
  have h1: "world example_worker = Some example_world" by (simp add: example_worker_def)
  have h2: "blocksStates example_worker = Some 0" by (simp add: example_worker_def)
  have ks: "Map_keys (dirtySections example_worker) = [(0, 0, 0), (0, 16, 0), (32, 0, 0)]"
    by (simp add: example_worker_def Map_keys_def)
  have ob: "outbox example_worker = []" by (simp add: example_worker_def)
  have c1: "column_has_section example_world 0 0 0"
    by (simp add: column_has_section_def getColumn_def example_world_def
          columnKey_def example_column_def section_exists_def section_at_def floor16_def)
  have c3: "column_has_section example_world 32 0 0"
    by (simp add: column_has_section_def getColumn_def example_world_def
          columnKey_def example_column_def section_exists_def section_at_def floor16_def)
  have g1: "example_mesher 0 0 0 example_world 0 = Inl ''boom''"
    by (simp add: example_mesher_def)
  have g3: "example_mesher 32 0 0 example_world 0 = Inr \<lparr>buffers = 1, sx = 32, sy = 0, sz = 0\<rparr>"
    by (simp add: example_mesher_def)
  obtain new where o: "outbox (processDirtySections example_mesher example_worker) = new"
    and f: "filter is_finished new = map SectionFinished [(0, 0, 0), (0, 16, 0), (32, 0, 0)]"
    and e: "\<forall>key \<in> set [(0, 0, 0), (0, 16, 0), (32, 0, 0)].
              case key of (X, Y, Z) \<Rightarrow>
                SectionFinished key \<in> set new
                \<and> (column_has_section example_world X Y Z \<longrightarrow>
                      (case example_mesher X Y Z example_world 0 of
                         Inr geo \<Rightarrow> Geometry key geo \<in> set new
                       | Inl message \<Rightarrow> Error (Some key) message \<in> set new))"
    using drain_signals_every_section [OF h1 h2, of example_mesher] unfolding ks ob by auto
  have e1: "Error (Some (0, 0, 0)) ''boom'' \<in> set new"
    using e c1 g1 by simp
  have e3: "Geometry (32, 0, 0) \<lparr>buffers = 1, sx = 32, sy = 0, sz = 0\<rparr> \<in> set new"
    using e c3 g3 by simp
  show ?thesis using h1 h2 f e1 e3 unfolding o by simp
qed

subsection \<open>Queries on the world\<close>

lemma posInChunk_height [simp]: "y (posInChunk p) = y p"
  by (simp add: posInChunk_def floored_def Let_def)

lemma inside_column_index:
  "inside_column col p \<longleftrightarrow> 0 \<le> floor16 (y p) \<and> floor16 (y p) < int (length (sections col))"
  by (auto simp: inside_column_def floor16_def)

lemma column_write_outside:
  assumes "\<not> inside_column col p"
  shows "column_setBlockStateId col p sid = col"
  using assms by (auto simp: inside_column_index column_setBlockStateId_def Let_def)

lemma column_write_length [simp]:
  "length (sections (column_setBlockStateId col p sid)) = length (sections col)"
  by (simp add: column_setBlockStateId_def Let_def split: option.splits)

lemma column_read_after_write:
  assumes "inside_column col p"
  shows "column_getBlockStateId (column_setBlockStateId col p sid) p = sid"
proof -
  have i: "0 \<le> floor16 (y p)" "nat (floor16 (y p)) < length (sections col)"
    "\<not> int (length (sections col)) \<le> floor16 (y p)"
    using assms by (simp_all add: inside_column_index nat_less_iff)
  show ?thesis
  proof (cases "sections col ! nat (floor16 (y p))")
    case None
    then show ?thesis
      using i by (simp add: column_setBlockStateId_def column_getBlockStateId_def Let_def
                    section_at_def)
  next
    case (Some sec)
    then show ?thesis
      using i by (simp add: column_setBlockStateId_def column_getBlockStateId_def Let_def
                    section_at_def)
  qed
qed

lemma toSectionPos_differs:
  assumes "local_of q \<noteq> local_of p" and "floor16 (y q) = floor16 (y p)"
  shows "toSectionPos q \<noteq> toSectionPos p"
proof
  assume e: "toSectionPos q = toSectionPos p"
  then have xz: "x q = x p" "z q = z p" and m: "y q mod 16 = y p mod 16"
    by (simp_all add: toSectionPos_def and_15_mod)
  have "y q = 16 * (y q div 16) + y q mod 16" by simp
  also have "\<dots> = 16 * (y p div 16) + y p mod 16"
    using assms(2) m by (simp add: floor16_def)
  also have "\<dots> = y p" by simp
  finally show False using assms(1) xz by (simp add: local_of_def)
qed

lemma column_read_elsewhere:
  assumes "local_of q \<noteq> local_of p"
  shows "column_getBlockStateId (column_setBlockStateId col p sid) q = column_getBlockStateId col q"
proof (cases "inside_column col p")
  case False
  then show ?thesis by (simp add: column_write_outside)
next
  case True
  then have i: "0 \<le> floor16 (y p)" "nat (floor16 (y p)) < length (sections col)"
    "\<not> int (length (sections col)) \<le> floor16 (y p)"
    by (simp_all add: inside_column_index nat_less_iff)
  show ?thesis
  proof (cases "floor16 (y q) = floor16 (y p)")
    case same: True
    have d: "toSectionPos q \<noteq> toSectionPos p" by (rule toSectionPos_differs [OF assms same])
    show ?thesis
      using i d same
      by (cases "sections col ! nat (floor16 (y p))")
         (simp_all add: column_setBlockStateId_def column_getBlockStateId_def Let_def section_at_def)
  next
    case other: False
    have "section_at (column_setBlockStateId col p sid) (floor16 (y q)) = section_at col (floor16 (y q))"
    proof (cases "0 \<le> floor16 (y q) \<and> nat (floor16 (y q)) < length (sections col)")
      case in_range: True
      then have n: "nat (floor16 (y q)) \<noteq> nat (floor16 (y p))" using other i by auto
      show ?thesis
        using in_range n i
        by (cases "sections col ! nat (floor16 (y p))")
           (simp_all add: column_setBlockStateId_def Let_def section_at_def)
    next
      case False
      then show ?thesis by (auto simp: section_at_def)
    qed
    then show ?thesis by (simp add: column_getBlockStateId_def)
  qed
qed

lemma World_setBlockStateId_loaded:
  assumes "columns w (owning_column p) = Some col"
  shows "World_setBlockStateId w p sid
         = (True, w\<lparr>columns := (columns w)
              (owning_column p \<mapsto> column_setBlockStateId col (posInChunk p) sid)\<rparr>)"
  using assms by (simp add: World_setBlockStateId_def floored_def)

lemma inside_posInChunk [simp]: "inside_column col (posInChunk p) = inside_column col p"
  by (simp add: inside_column_def)

text \<open>
  C9, as the code has it. When the column that owns position \<open>p\<close> is not loaded,
  \<open>getBlock\<close> returns \<open>null\<close> and \<open>setBlockStateId\<close> returns \<open>false\<close>, both leaving the
  world as it was. When it is loaded, \<open>setBlockStateId\<close> hands the write to the column, at
  \<open>p\<close>'s place inside the column, and returns \<open>true\<close> whatever the column does with it.
  If \<open>p\<close>'s height lies inside the column, a query at \<open>p\<close> then reads the new state id;
  if it lies outside, the column ignores the write and the world is as it was. In both
  cases every other place reads what it read before, and \<open>getBlock\<close> at \<open>p\<close> returns a
  descriptor.
\<close>

theorem World_unloaded_column_fails_soft:
  "(columns w (owning_column p) = None \<longrightarrow>
      World_getBlock w p = (None, w) \<and> World_setBlockStateId w p sid = (False, w))
   \<and> (columns w (owning_column p) = Some col \<longrightarrow>
        fst (World_setBlockStateId w p sid) = True
      \<and> columns (snd (World_setBlockStateId w p sid))
          = (columns w)(owning_column p \<mapsto> column_setBlockStateId col (posInChunk p) sid)
      \<and> (inside_column col p \<longrightarrow>
            World_blockStateAt (snd (World_setBlockStateId w p sid)) p = Some sid)
      \<and> (\<not> inside_column col p \<longrightarrow> snd (World_setBlockStateId w p sid) = w)
      \<and> (owning_column q \<noteq> owning_column p
           \<or> local_of (posInChunk q) \<noteq> local_of (posInChunk p) \<longrightarrow>
            World_blockStateAt (snd (World_setBlockStateId w p sid)) q = World_blockStateAt w q)
      \<and> (\<exists>b. fst (World_getBlock (snd (World_setBlockStateId w p sid)) p) = Some b
             \<and> position b = Some p))"
proof -
  let ?w' = "snd (World_setBlockStateId w p sid)"
  let ?col' = "column_setBlockStateId col (posInChunk p) sid"
  have u: "columns w (owning_column p) = None \<longrightarrow>
      World_getBlock w p = (None, w) \<and> World_setBlockStateId w p sid = (False, w)"
    by (simp add: World_getBlock_def World_setBlockStateId_def)
  have l: "fst (World_setBlockStateId w p sid) = True
      \<and> columns ?w' = (columns w)(owning_column p \<mapsto> ?col')
      \<and> (inside_column col p \<longrightarrow> World_blockStateAt ?w' p = Some sid)
      \<and> (\<not> inside_column col p \<longrightarrow> ?w' = w)
      \<and> (owning_column q \<noteq> owning_column p
           \<or> local_of (posInChunk q) \<noteq> local_of (posInChunk p) \<longrightarrow>
            World_blockStateAt ?w' q = World_blockStateAt w q)
      \<and> (\<exists>b. fst (World_getBlock ?w' p) = Some b \<and> position b = Some p)"
    if c: "columns w (owning_column p) = Some col"
  proof -
    note e = World_setBlockStateId_loaded [OF c, of sid]
    have 1: "fst (World_setBlockStateId w p sid) = True" by (simp add: e)
    have 2: "columns ?w' = (columns w)(owning_column p \<mapsto> ?col')" by (simp add: e)
    have 3: "World_blockStateAt ?w' p = Some sid" if "inside_column col p"
      using that by (simp add: World_blockStateAt_def 2 floored_def column_read_after_write)
    have 4: "?w' = w" if "\<not> inside_column col p"
    proof -
      have "?col' = col" using that by (simp add: column_write_outside)
      moreover have "(columns w)(owning_column p \<mapsto> col) = columns w"
        using c by (rule map_upd_triv)
      ultimately show ?thesis by (simp add: e)
    qed
    have 5: "World_blockStateAt ?w' q = World_blockStateAt w q"
      if "owning_column q \<noteq> owning_column p
           \<or> local_of (posInChunk q) \<noteq> local_of (posInChunk p)"
    proof (cases "owning_column q = owning_column p")
      case True
      then have "local_of (posInChunk q) \<noteq> local_of (posInChunk p)" using that by simp
      then show ?thesis
        using True c by (simp add: World_blockStateAt_def 2 floored_def column_read_elsewhere)
    next
      case False
      then show ?thesis by (simp add: World_blockStateAt_def 2)
    qed
    have 6: "\<exists>b. fst (World_getBlock ?w' p) = Some b \<and> position b = Some p"
      by (simp add: World_getBlock_def 2 Let_def floored_def split: prod.splits option.splits)
    show ?thesis using 1 2 3 4 5 6 by blast
  qed
  show ?thesis using u l by blast
qed

theorem World_write_outside_column_counterexample:
  "fst (World_setBlockStateId example_world \<lparr>x = 35, y = 300, z = 7\<rparr> 9) = True
   \<and> World_blockStateAt (snd (World_setBlockStateId example_world \<lparr>x = 35, y = 300, z = 7\<rparr> 9))
        \<lparr>x = 35, y = 300, z = 7\<rparr> = Some 0"
proof -
  let ?p = "\<lparr>x = 35, y = 300, z = 7\<rparr>"
  have o: "owning_column ?p = (32, 0)"
    by (simp add: owning_column_def columnKey_def floor16_def)
  have c: "columns example_world (owning_column ?p) = Some example_column"
    unfolding o by (simp add: example_world_def World_new_def columnKey_def)
  have out: "\<not> inside_column example_column (posInChunk ?p)"
    by (simp add: inside_column_def example_column_def)
  have e: "World_setBlockStateId example_world ?p 9 = (True, example_world)"
  proof -
    have "(columns example_world)(owning_column ?p \<mapsto> example_column) = columns example_world"
      using c by (rule map_upd_triv)
    then show ?thesis
      using World_setBlockStateId_loaded [OF c, of 9] column_write_outside [OF out, of 9]
      by simp
  qed
  have r: "World_blockStateAt example_world ?p = Some 0"
    using c by (simp add: World_blockStateAt_def column_getBlockStateId_def section_at_def
                  example_column_def floor16_def floored_def)
  show ?thesis by (simp add: e r)
qed

theorem World_unloaded_column_fails_soft_witness:
  "columns example_world (owning_column \<lparr>x = 3, y = 5, z = - 1\<rparr>) = None
   \<and> World_getBlock example_world \<lparr>x = 3, y = 5, z = - 1\<rparr> = (None, example_world)
   \<and> World_setBlockStateId example_world \<lparr>x = 3, y = 5, z = - 1\<rparr> 9 = (False, example_world)
   \<and> columns example_world (owning_column \<lparr>x = 35, y = 5, z = 7\<rparr>) = Some example_column
   \<and> inside_column example_column \<lparr>x = 35, y = 5, z = 7\<rparr>
   \<and> fst (World_setBlockStateId example_world \<lparr>x = 35, y = 5, z = 7\<rparr> 9) = True
   \<and> World_blockStateAt (snd (World_setBlockStateId example_world \<lparr>x = 35, y = 5, z = 7\<rparr> 9))
        \<lparr>x = 35, y = 5, z = 7\<rparr> = Some 9
   \<and> \<not> inside_column example_column \<lparr>x = 35, y = 300, z = 7\<rparr>
   \<and> snd (World_setBlockStateId example_world \<lparr>x = 35, y = 300, z = 7\<rparr> 9) = example_world"
proof -
  let ?u = "\<lparr>x = 3, y = 5, z = - 1\<rparr>"
  let ?p = "\<lparr>x = 35, y = 5, z = 7\<rparr>"
  let ?o = "\<lparr>x = 35, y = 300, z = 7\<rparr>"
  have o1: "owning_column ?u = (0, - 16)"
    by (simp add: owning_column_def columnKey_def floor16_def)
  have o2: "owning_column ?p = (32, 0)" "owning_column ?o = (32, 0)"
    by (simp_all add: owning_column_def columnKey_def floor16_def)
  have h1: "columns example_world (owning_column ?u) = None"
    unfolding o1 by (simp add: example_world_def World_new_def columnKey_def)
  have h2: "columns example_world (owning_column ?p) = Some example_column"
    unfolding o2 by (simp add: example_world_def World_new_def columnKey_def)
  have h3: "columns example_world (owning_column ?o) = Some example_column"
    unfolding o2 by (simp add: example_world_def World_new_def columnKey_def)
  have i2: "inside_column example_column ?p" by (simp add: inside_column_def example_column_def)
  have i3: "\<not> inside_column example_column ?o" by (simp add: inside_column_def example_column_def)
  note a = World_unloaded_column_fails_soft [of example_world ?u 9 example_column ?u]
  note b = World_unloaded_column_fails_soft [of example_world ?p 9 example_column ?u]
  note c = World_unloaded_column_fails_soft [of example_world ?o 9 example_column ?u]
  have ra: "World_getBlock example_world ?u = (None, example_world)
            \<and> World_setBlockStateId example_world ?u 9 = (False, example_world)"
    using a h1 by blast
  have rb: "fst (World_setBlockStateId example_world ?p 9) = True
            \<and> World_blockStateAt (snd (World_setBlockStateId example_world ?p 9)) ?p = Some 9"
    using b h2 i2 by blast
  have rc: "snd (World_setBlockStateId example_world ?o 9) = example_world"
    using c h3 i3 by blast
  show ?thesis using h1 h2 i2 i3 ra rb rc by blast
qed

subsection \<open>The LRU cache\<close>

lemma Map_keys_delete: "Map_keys (Map_delete m k) = filter (\<lambda>j. j \<noteq> k) (Map_keys m)"
  by (induction m) (simp_all add: Map_keys_def Map_delete_def)

lemma Map_keys_set_fresh: "k \<notin> set (Map_keys m) \<Longrightarrow> Map_keys (Map_set m k v) = Map_keys m @ [k]"
  by (induction m) (auto simp: Map_keys_def)

lemma Map_keys_set_after_delete:
  "Map_keys (Map_set (Map_delete m k) k v) = filter (\<lambda>j. j \<noteq> k) (Map_keys m) @ [k]"
  by (simp add: Map_keys_set_fresh Map_keys_delete)

lemma Map_has_keys: "Map_has m k \<longleftrightarrow> k \<in> set (Map_keys m)"
  by (simp add: Map_has_def Map_keys_def)

lemma Map_get_present: "k \<in> set (Map_keys m) \<Longrightarrow> \<exists>v. Map_get m k = Some v"
  by (induction m) (auto simp: Map_get_def Map_keys_def)

lemma lru_keys_get:
  "lru_keys (snd (LRU_get c k))
   = (if k \<in> set (lru_keys c) then filter (\<lambda>j. j \<noteq> k) (lru_keys c) @ [k] else lru_keys c)"
proof (cases "k \<in> set (lru_keys c)")
  case True
  then obtain v where "Map_get (cache c) k = Some v"
    using Map_get_present [of k "cache c"] by (auto simp: lru_keys_def)
  then show ?thesis
    using True by (simp add: LRU_get_def lru_keys_def Map_has_keys Map_keys_set_after_delete)
next
  case False
  then show ?thesis by (simp add: LRU_get_def lru_keys_def Map_has_keys)
qed

lemma filter_absent: "k \<notin> set ks \<Longrightarrow> filter (\<lambda>j. j \<noteq> k) ks = ks"
  by (induction ks) auto

lemma Map_size_keys: "Map_size m = length (Map_keys m)"
  by (simp add: Map_size_def Map_keys_def)

lemma lru_keys_set:
  assumes "distinct (lru_keys c)"
  shows "lru_keys (LRU_set c k v)
   = (if k \<in> set (lru_keys c) then filter (\<lambda>j. j \<noteq> k) (lru_keys c) @ [k]
      else if maxSize c \<le> int (length (lru_keys c)) then tl (lru_keys c) @ [k]
      else lru_keys c @ [k])"
proof (cases "k \<in> set (lru_keys c)")
  case True
  then have "cache (LRU_set c k v) = Map_set (Map_delete (cache c) k) k v"
    by (simp add: LRU_set_def lru_keys_def Map_has_keys)
  then show ?thesis
    using True by (simp add: lru_keys_def Map_keys_set_after_delete)
next
  case False
  show ?thesis
  proof (cases "maxSize c \<le> int (length (lru_keys c))")
    case full: True
    show ?thesis
    proof (cases "Map_keys (cache c)")
      case Nil
      then have "cache (LRU_set c k v) = Map_set (cache c) k v"
        using False full
        by (simp add: LRU_set_def lru_keys_def Map_has_keys Map_size_keys)
      then show ?thesis
        using False full Nil by (simp add: lru_keys_def Map_keys_set_fresh)
    next
      case (Cons a ks)
      have d: "a \<notin> set ks" using assms Cons by (simp add: lru_keys_def)
      have n: "k \<notin> set ks" "k \<noteq> a" using False Cons by (auto simp: lru_keys_def)
      have c: "cache (LRU_set c k v) = Map_set (Map_delete (cache c) a) k v"
        using False full Cons
        by (simp add: LRU_set_def lru_keys_def Map_has_keys Map_size_keys)
      have "Map_keys (Map_delete (cache c) a) = ks"
        using d by (simp add: Map_keys_delete Cons filter_absent)
      then have "Map_keys (Map_set (Map_delete (cache c) a) k v) = ks @ [k]"
        using n by (simp add: Map_keys_set_fresh)
      then show ?thesis
        using False full Cons c by (simp add: lru_keys_def)
    qed
  next
    case notfull: False
    then have "cache (LRU_set c k v) = Map_set (cache c) k v"
      using False by (simp add: LRU_set_def lru_keys_def Map_has_keys Map_size_keys)
    then show ?thesis
      using False notfull by (simp add: lru_keys_def Map_keys_set_fresh)
  qed
qed

lemma lru_size_keys: "LRU_size c = length (lru_keys c)"
  by (simp add: LRU_size_def Map_size_def lru_keys_def Map_keys_def)

lemma maxSize_get [simp]: "maxSize (snd (LRU_get c k)) = maxSize c"
  by (simp add: LRU_get_def split: option.splits)

lemma maxSize_set [simp]: "maxSize (LRU_set c k v) = maxSize c"
  by (simp add: LRU_set_def Let_def)

lemma maxSize_delete [simp]: "maxSize (snd (LRU_delete c k)) = maxSize c"
  by (simp add: LRU_delete_def)

lemma maxSize_clear [simp]: "maxSize (LRU_clear c) = maxSize c"
  by (simp add: LRU_clear_def)

lemma lru_keys_delete: "lru_keys (snd (LRU_delete c k)) = filter (\<lambda>j. j \<noteq> k) (lru_keys c)"
  by (simp add: LRU_delete_def lru_keys_def Map_keys_delete)

lemma lru_keys_clear: "lru_keys (LRU_clear c) = []"
  by (simp add: LRU_clear_def lru_keys_def Map_keys_def)

lemma length_filter_touch:
  "distinct ks \<Longrightarrow> k \<in> set ks \<Longrightarrow> length (filter (\<lambda>j. j \<noteq> k) ks) + 1 = length ks"
  by (induction ks) (auto simp: filter_absent)

lemma lru_inv_get:
  assumes "lru_inv c"
  shows "lru_inv (snd (LRU_get c k))"
  using assms length_filter_touch [of "lru_keys c" k]
  by (auto simp: lru_inv_def lru_keys_get)

lemma lru_inv_set:
  assumes "lru_inv c" and "1 \<le> maxSize c"
  shows "lru_inv (LRU_set c k v)"
proof -
  have d: "distinct (lru_keys c)" using assms by (simp add: lru_inv_def)
  show ?thesis
    using assms length_filter_touch [of "lru_keys c" k]
    by (cases "lru_keys c") (auto simp: lru_inv_def lru_keys_set [OF d])
qed

lemma lru_inv_delete:
  assumes "lru_inv c"
  shows "lru_inv (snd (LRU_delete c k))"
proof -
  have d: "distinct (filter (\<lambda>j. j \<noteq> k) (lru_keys c))"
    using assms by (simp add: lru_inv_def)
  have l: "int (length (filter (\<lambda>j. j \<noteq> k) (lru_keys c))) \<le> maxSize c"
    using assms length_filter_le [of "\<lambda>j. j \<noteq> k" "lru_keys c"]
    unfolding lru_inv_def by linarith
  show ?thesis unfolding lru_inv_def lru_keys_delete maxSize_delete using d l by blast
qed

lemma lru_inv_step:
  assumes "lru_inv c" and "1 \<le> maxSize c"
  shows "lru_inv (lru_step c opn) \<and> maxSize (lru_step c opn) = maxSize c"
proof (cases opn)
  case (Get k)
  then show ?thesis using assms by (simp add: lru_inv_get)
next
  case (Set k v)
  then show ?thesis using assms by (simp add: lru_inv_set)
next
  case (Has k)
  then show ?thesis using assms by simp
next
  case (Delete k)
  then show ?thesis using assms by (simp add: lru_inv_delete)
next
  case Clear
  then show ?thesis using assms by (simp add: lru_inv_def lru_keys_clear)
qed

lemma lru_inv_foldl:
  assumes "lru_inv c" and "1 \<le> maxSize c"
  shows "lru_inv (foldl lru_step c ops) \<and> maxSize (foldl lru_step c ops) = maxSize c"
  using assms by (induction ops arbitrary: c) (simp_all add: lru_inv_step)

lemma lru_inv_run:
  assumes "1 \<le> n"
  shows "lru_inv (lru_run n ops)" and "maxSize (lru_run n ops) = n"
proof -
  have "lru_inv (LRUCache_new n :: ('a, 'b) LRUCache)"
    using assms by (simp add: lru_inv_def LRUCache_new_def lru_keys_def Map_keys_def)
  then show "lru_inv (lru_run n ops)" "maxSize (lru_run n ops) = n"
    using assms lru_inv_foldl [of "LRUCache_new n" ops]
    by (simp_all add: lru_run_def LRUCache_new_def)
qed

lemma insert_fresh_keys:
  assumes "distinct (lru_keys c @ ks)"
    and "int (length (lru_keys c) + length ks) \<le> maxSize c"
  shows "lru_keys (foldl (\<lambda>c k. LRU_set c k (f k)) c ks) = lru_keys c @ ks"
  using assms
proof (induction ks arbitrary: c)
  case Nil
  then show ?case by simp
next
  case (Cons k ks)
  have d: "distinct (lru_keys c)" using Cons.prems(1) by simp
  have n: "k \<notin> set (lru_keys c)" using Cons.prems(1) by auto
  have s: "lru_keys (LRU_set c k (f k)) = lru_keys c @ [k]"
    using n Cons.prems(2) by (simp add: lru_keys_set [OF d])
  have "lru_keys (foldl (\<lambda>c k. LRU_set c k (f k)) (LRU_set c k (f k)) ks)
        = lru_keys (LRU_set c k (f k)) @ ks"
    using Cons.prems by (intro Cons.IH) (simp_all add: s)
  then show ?case by (simp add: s)
qed

lemma new_keys [simp]: "lru_keys (LRUCache_new n) = []"
  by (simp add: LRUCache_new_def lru_keys_def Map_keys_def)

lemma insert_one_too_many:
  assumes "1 \<le> n" and "distinct ks" and "int (length ks) = n + 1"
  shows "lru_keys (foldl (\<lambda>c k. LRU_set c k (f k)) (LRUCache_new n) ks) = tl ks"
proof -
  from assms have "ks \<noteq> []" by auto
  then obtain ks' k where ks: "ks = ks' @ [k]" by (metis rev_exhaust)
  let ?c = "foldl (\<lambda>c k. LRU_set c k (f k)) (LRUCache_new n :: ('a, 'b) LRUCache) ks'"
  have len: "int (length ks') = n" using assms(3) ks by simp
  have k: "lru_keys ?c = ks'"
    using insert_fresh_keys [of "LRUCache_new n" ks' f] assms(2) len ks
    by (simp add: LRUCache_new_def lru_keys_def Map_keys_def)
  have m: "maxSize ?c = n"
    by (induction ks' rule: rev_induct) (simp_all add: LRUCache_new_def)
  have d: "distinct (lru_keys ?c)" using k assms(2) ks by simp
  have ne: "ks' \<noteq> []" using len assms(1) by auto
  have "lru_keys (LRU_set ?c k (f k)) = tl ks' @ [k]"
    using assms(2) ks len by (simp add: lru_keys_set [OF d] k m)
  then show ?thesis using ne by (simp add: ks)
qed

text \<open>
  C3, as the code has it. For every capacity \<open>n \<ge> 1\<close> and every sequence of operations
  on a new cache: the size never exceeds \<open>n\<close>; \<open>get\<close> and \<open>set\<close> of a present key move
  it to the most recent end and evict nothing; \<open>set\<close> of a new key appends it, and when
  the cache is full it evicts exactly the key at the least recent end; so inserting
  \<open>n + 1\<close> distinct keys into a new cache leaves all but the first inserted.
\<close>

theorem LRUCache_bounded_and_evicts_least_recent:
  assumes "1 \<le> n"
  shows "int (LRU_size (lru_run n ops)) \<le> n
       \<and> (k \<in> set (lru_keys (lru_run n ops)) \<longrightarrow>
            lru_keys (snd (LRU_get (lru_run n ops) k))
              = filter (\<lambda>j. j \<noteq> k) (lru_keys (lru_run n ops)) @ [k]
          \<and> lru_keys (LRU_set (lru_run n ops) k v)
              = filter (\<lambda>j. j \<noteq> k) (lru_keys (lru_run n ops)) @ [k])
       \<and> (k \<notin> set (lru_keys (lru_run n ops)) \<and> int (LRU_size (lru_run n ops)) < n \<longrightarrow>
            lru_keys (LRU_set (lru_run n ops) k v) = lru_keys (lru_run n ops) @ [k])
       \<and> (k \<notin> set (lru_keys (lru_run n ops)) \<and> int (LRU_size (lru_run n ops)) = n \<longrightarrow>
            lru_keys (LRU_set (lru_run n ops) k v) = tl (lru_keys (lru_run n ops)) @ [k])
       \<and> (distinct ks \<and> int (length ks) = n + 1 \<longrightarrow>
            lru_keys (foldl (\<lambda>c k. LRU_set c k (f k)) (LRUCache_new n) ks) = tl ks)"
proof -
  let ?c = "lru_run n ops"
  have i: "lru_inv ?c" by (rule lru_inv_run(1) [OF assms])
  have m: "maxSize ?c = n" by (rule lru_inv_run(2) [OF assms])
  have d: "distinct (lru_keys ?c)" using i by (simp add: lru_inv_def)
  have 1: "int (LRU_size ?c) \<le> n" using i m by (simp add: lru_inv_def lru_size_keys)
  have 2: "k \<in> set (lru_keys ?c) \<longrightarrow>
            lru_keys (snd (LRU_get ?c k)) = filter (\<lambda>j. j \<noteq> k) (lru_keys ?c) @ [k]
          \<and> lru_keys (LRU_set ?c k v) = filter (\<lambda>j. j \<noteq> k) (lru_keys ?c) @ [k]"
    by (simp add: lru_keys_get lru_keys_set [OF d])
  have 3: "k \<notin> set (lru_keys ?c) \<and> int (LRU_size ?c) < n \<longrightarrow>
            lru_keys (LRU_set ?c k v) = lru_keys ?c @ [k]"
    by (simp add: lru_keys_set [OF d] m lru_size_keys)
  have 4: "k \<notin> set (lru_keys ?c) \<and> int (LRU_size ?c) = n \<longrightarrow>
            lru_keys (LRU_set ?c k v) = tl (lru_keys ?c) @ [k]"
    by (simp add: lru_keys_set [OF d] m lru_size_keys)
  have 5: "distinct ks \<and> int (length ks) = n + 1 \<longrightarrow>
            lru_keys (foldl (\<lambda>c k. LRU_set c k (f k)) (LRUCache_new n) ks) = tl ks"
    using insert_one_too_many [OF assms] by blast
  show ?thesis using 1 2 3 4 5 by blast
qed

theorem LRUCache_capacity_zero_counterexample:
  "\<not> int (LRU_size (lru_run 0 [Set (1::nat) (2::nat)])) \<le> 0"
  by (simp add: lru_run_def LRUCache_new_def LRU_set_def LRU_size_def Map_has_def Map_size_def
        Map_keys_def)

theorem LRUCache_bounded_and_evicts_least_recent_witness:
  "lru_keys (lru_run 2 [Set (1::nat) (10::nat), Set 2 20, Get 1]) = [2, 1]
   \<and> lru_keys (LRU_set (lru_run 2 [Set (1::nat) (10::nat), Set 2 20, Get 1]) 3 30) = [1, 3]
   \<and> lru_keys (foldl (\<lambda>c k. LRU_set c k (10 * k)) (LRUCache_new 2) [1::nat, 2, 3]) = [2, 3]"
proof -
  let ?ops = "[Set (1::nat) (10::nat), Set 2 20, Get 1]"
  have n: "(1::int) \<le> 2" by simp
  have ks: "lru_keys (lru_run 2 ?ops) = [2, 1]"
    by (simp add: lru_run_def LRUCache_new_def LRU_set_def LRU_get_def lru_keys_def
          Map_has_def Map_size_def Map_keys_def Map_delete_def Map_get_def)
  have sz: "int (LRU_size (lru_run 2 ?ops)) = 2"
    using ks by (simp add: lru_size_keys)
  have fr: "3 \<notin> set (lru_keys (lru_run 2 ?ops))" unfolding ks by simp
  have di: "distinct [1::nat, 2, 3] \<and> int (length [1::nat, 2, 3]) = 2 + 1" by simp
  note t = LRUCache_bounded_and_evicts_least_recent
    [OF n, of ?ops 3 30 "[1, 2, 3]" "\<lambda>k. 10 * k"]
  have a: "lru_keys (LRU_set (lru_run 2 ?ops) 3 30) = tl (lru_keys (lru_run 2 ?ops)) @ [3]"
    using t fr sz by blast
  have b: "lru_keys (foldl (\<lambda>c k. LRU_set c k (10 * k)) (LRUCache_new 2) [1::nat, 2, 3]) = tl [1, 2, 3]"
    using t di by blast
  show ?thesis using a b ks by simp
qed

subsection \<open>The shared material and texture\<close>

lemma foldl_keeps:
  assumes "\<And>t a. f (body t a) = f t"
  shows "f (foldl body s as) = f s"
  using assms by (induction as arbitrary: s) simp_all

lemma setSectionDirty_frame [simp]:
  "sectionMeshs (setSectionDirty s p v) = sectionMeshs s"
  "store (setSectionDirty s p v) = store s"
  "material (setSectionDirty s p v) = material s"
  "loadedChunks (setSectionDirty s p v) = loadedChunks s"
  "scene (setSectionDirty s p v) = scene s"
  "next_ref (setSectionDirty s p v) = next_ref s"
  "currentTexture (setSectionDirty s p v) = currentTexture s"
  "renderUpdateEmitter (setSectionDirty s p v) = renderUpdateEmitter s"
  "resolved (setSectionDirty s p v) = resolved s"
  "workersActive (setSectionDirty s p v) = workersActive s"
  by (simp_all add: setSectionDirty_def post_to_def Let_def)

lemma post_all_frame [simp]:
  "sectionMeshs (post_all m s) = sectionMeshs s"
  "store (post_all m s) = store s"
  "material (post_all m s) = material s"
  "loadedChunks (post_all m s) = loadedChunks s"
  "scene (post_all m s) = scene s"
  "next_ref (post_all m s) = next_ref s"
  "currentTexture (post_all m s) = currentTexture s"
  "renderUpdateEmitter (post_all m s) = renderUpdateEmitter s"
  "resolved (post_all m s) = resolved s"
  "workersActive (post_all m s) = workersActive s"
  by (simp_all add: post_all_def)

lemma addColumn_section_frame [simp]:
  "sectionMeshs (addColumn_section cx cz s h) = sectionMeshs s"
  "store (addColumn_section cx cz s h) = store s"
  "material (addColumn_section cx cz s h) = material s"
  "loadedChunks (addColumn_section cx cz s h) = loadedChunks s"
  "scene (addColumn_section cx cz s h) = scene s"
  "next_ref (addColumn_section cx cz s h) = next_ref s"
  "currentTexture (addColumn_section cx cz s h) = currentTexture s"
  "renderUpdateEmitter (addColumn_section cx cz s h) = renderUpdateEmitter s"
  "resolved (addColumn_section cx cz s h) = resolved s"
  "workersActive (addColumn_section cx cz s h) = workersActive s"
  "active (addColumn_section cx cz s h) = active s"
  by (simp_all add: addColumn_section_def Let_def)

lemma addColumn_frame:
  "sectionMeshs (addColumn s cx cz c) = sectionMeshs s"
  "store (addColumn s cx cz c) = store s"
  "material (addColumn s cx cz c) = material s"
  "loadedChunks (addColumn s cx cz c) = insert (columnKey cx cz) (loadedChunks s)"
  "scene (addColumn s cx cz c) = scene s"
  "next_ref (addColumn s cx cz c) = next_ref s"
  "currentTexture (addColumn s cx cz c) = currentTexture s"
  "renderUpdateEmitter (addColumn s cx cz c) = renderUpdateEmitter s"
  "resolved (addColumn s cx cz c) = resolved s"
  "workersActive (addColumn s cx cz c) = workersActive s"
  "active (addColumn s cx cz c) = active s"
  unfolding addColumn_def
  by (subst foldl_keeps; simp)+

lemma resetWorld_empty:
  assumes "sectionMeshs s = []"
  shows "resetWorld s
         = post_all Reset (s\<lparr>active := False, sectionMeshs := [], loadedChunks := {},
                               sectionsOutstanding := {}\<rparr>)"
  using assms by (simp add: resetWorld_def Let_def)

lemma texture_swap_effect:
  assumes "material s = Some m"
  shows "fst (onTextureLoaded s new) = None
       \<and> gpu_log (store (snd (onTextureLoaded s new)))
         = gpu_log (store s)
           @ (case currentTexture s of None \<Rightarrow> [] | Some old \<Rightarrow> [TextureDisposed old])
           @ [MapAssigned m new]
       \<and> currentTexture (snd (onTextureLoaded s new)) = Some new
       \<and> Map_get (slots (store (snd (onTextureLoaded s new))) m) ''map'' = Some new
       \<and> material (snd (onTextureLoaded s new)) = Some m"
proof -
  have g: "Map_get (Map_set mp k v) k = Some v" for mp :: "(string, ref) js_map" and k v
    by (induction mp) (auto simp: Map_get_def)
  show ?thesis
    using assms
    by (cases "currentTexture s")
       (simp_all add: onTextureLoaded_def Let_def disposeTexture_def emit_gpu_def g)
qed

text \<open>
  C2, as the code has it. When a texture arrives while the renderer holds a previous one,
  the callback first disposes the previous texture and then installs the new one on the
  shared material; afterwards the new texture is the material's map and the renderer's
  current texture.
\<close>

theorem texture_swap_disposes_then_installs:
  assumes "material s = Some m" and "currentTexture s = Some old"
  shows "fst (onTextureLoaded s new) = None
       \<and> gpu_log (store (snd (onTextureLoaded s new)))
         = gpu_log (store s) @ [TextureDisposed old, MapAssigned m new]
       \<and> currentTexture (snd (onTextureLoaded s new)) = Some new
       \<and> Map_get (slots (store (snd (onTextureLoaded s new))) m) ''map'' = Some new
       \<and> material (snd (onTextureLoaded s new)) = Some m"
  using texture_swap_effect [OF assms(1), of new] assms(2) by simp

lemma first_texture_state:
  "material (snd (onTextureLoaded (setVersion (WorldRenderer_new 2) ''1.16'') 100)) = Some 0"
  "currentTexture (snd (onTextureLoaded (setVersion (WorldRenderer_new 2) ''1.16'') 100)) = Some 100"
  "gpu_log (store (snd (onTextureLoaded (setVersion (WorldRenderer_new 2) ''1.16'') 100)))
   = [MapAssigned 0 100]"
proof -
  let ?s = "setVersion (WorldRenderer_new 2) ''1.16''"
  have m: "material ?s = Some 0"
    by (simp add: setVersion_def resetWorld_empty WorldRenderer_new_def)
  have c: "currentTexture ?s = None"
    by (simp add: setVersion_def resetWorld_empty WorldRenderer_new_def)
  have l: "gpu_log (store ?s) = []"
    by (simp add: setVersion_def resetWorld_empty WorldRenderer_new_def)
  note t = texture_swap_effect [OF m, of 100]
  show "material (snd (onTextureLoaded ?s 100)) = Some 0" using t by simp
  show "currentTexture (snd (onTextureLoaded ?s 100)) = Some 100" using t by simp
  show "gpu_log (store (snd (onTextureLoaded ?s 100))) = [MapAssigned 0 100]"
    using t c l by simp
qed

theorem texture_swap_disposes_then_installs_witness:
  "gpu_log (store (snd (onTextureLoaded
      (snd (onTextureLoaded (setVersion (WorldRenderer_new 2) ''1.16'') 100)) 200)))
   = [MapAssigned 0 100, TextureDisposed 100, MapAssigned 0 200]"
  using texture_swap_disposes_then_installs
    [OF first_texture_state(1) first_texture_state(2), of 200]
  by (simp add: first_texture_state(3))

theorem texture_install_before_dispose_counterexample:
  "\<not> happens_before (MapAssigned 0 200) (TextureDisposed 100)
       (gpu_log (store (snd (onTextureLoaded
          (snd (onTextureLoaded (setVersion (WorldRenderer_new 2) ''1.16'') 100)) 200))))"
proof -
  have "gpu_log (store (snd (onTextureLoaded
      (snd (onTextureLoaded (setVersion (WorldRenderer_new 2) ''1.16'') 100)) 200)))
   = [MapAssigned 0 100, TextureDisposed 100, MapAssigned 0 200]"
    using texture_swap_effect [OF first_texture_state(1), of 200]
    by (simp add: first_texture_state)
  then show ?thesis by (simp add: happens_before_def)
qed

lemma onTextureLoaded_frame [simp]:
  "sectionMeshs (snd (onTextureLoaded s t)) = sectionMeshs s"
  "loadedChunks (snd (onTextureLoaded s t)) = loadedChunks s"
  "scene (snd (onTextureLoaded s t)) = scene s"
  "next_ref (snd (onTextureLoaded s t)) = next_ref s"
  "renderUpdateEmitter (snd (onTextureLoaded s t)) = renderUpdateEmitter s"
  "resolved (snd (onTextureLoaded s t)) = resolved s"
  "active (snd (onTextureLoaded s t)) = active s"
  "workers (snd (onTextureLoaded s t)) = workers s"
  by (simp_all add: onTextureLoaded_def Let_def split: option.splits)

lemma section_heights_eq:
  "section_heights = [0, 16, 32, 48, 64, 80, 96, 112, 128, 144, 160, 176, 192, 208, 224, 240]"
  by (simp add: section_heights_def WORLD_HEIGHT_def SECTION_HEIGHT_def upt_conv_Cons numeral_eq_Suc)

lemma dispose_section_mesh:
  "gpu_log (snd (dispose3 \<lparr>disposeTextures = False, recursive = True\<rparr>
                   (Object3D i [] (Some geo) (OneMaterial m) False) g))
   = gpu_log g @ [GeometryDisposed geo, MaterialDisposed m]"
  by (simp add: dispose_one_material_def material_dispose_def emit_gpu_def)

lemma removeColumn_section_no_mesh:
  assumes "sectionMeshs t = []"
  shows "store (removeColumn_section cx cz t h) = store t"
    and "sectionMeshs (removeColumn_section cx cz t h) = []"
    and "material (removeColumn_section cx cz t h) = material t"
  using assms by (simp_all add: removeColumn_section_def Let_def Map_get_def Map_delete_def)

lemma removeColumn_loop_no_meshes:
  assumes "sectionMeshs t = []"
  shows "store (foldl (removeColumn_section cx cz) t hs) = store t"
  using assms
  by (induction hs arbitrary: t) (simp_all add: removeColumn_section_no_mesh)

lemma example_renderer_fields:
  "material example_renderer = Some 0"
  "sectionMeshs example_renderer = [((0, 0, 0), Object3D 2 [] (Some 1) (OneMaterial 0) False)]"
  "gpu_log (store example_renderer) = [MapAssigned 0 100]"
  "currentTexture example_renderer = Some 100"
  "active example_renderer"
proof -
  let ?s = "setVersion (WorldRenderer_new 2) ''1.16''"
  let ?t = "addColumn (snd (onTextureLoaded ?s 100)) 0 0 (Inr example_column)"
  have s: "sectionMeshs ?s = []" "loadedChunks ?s = {}" "next_ref ?s = 1" "scene ?s = []" "active ?s"
    by (simp_all add: setVersion_def resetWorld_empty WorldRenderer_new_def post_all_def)
  have a: "active ?t" by (simp add: addColumn_frame s)
  have t: "sectionMeshs ?t = []" "loadedChunks ?t = {(0, 0)}" "next_ref ?t = 1"
    "material ?t = Some 0" "gpu_log (store ?t) = [MapAssigned 0 100]" "currentTexture ?t = Some 100"
    by (simp_all add: addColumn_frame s first_texture_state columnKey_def)
  show "material example_renderer = Some 0"
    unfolding example_renderer_def
    by (simp add: handleGeometry_def t Map_get_def columnKey_def Let_def)
  show "sectionMeshs example_renderer = [((0, 0, 0), Object3D 2 [] (Some 1) (OneMaterial 0) False)]"
    unfolding example_renderer_def
    by (simp add: handleGeometry_def t Map_get_def columnKey_def Let_def material_of_def)
  show "gpu_log (store example_renderer) = [MapAssigned 0 100]"
    unfolding example_renderer_def
    by (simp add: handleGeometry_def t Map_get_def columnKey_def Let_def)
  show "currentTexture example_renderer = Some 100"
    unfolding example_renderer_def
    by (simp add: handleGeometry_def t Map_get_def columnKey_def Let_def)
  show "active example_renderer"
    unfolding example_renderer_def
    by (simp add: handleGeometry_def t a Map_get_def columnKey_def Let_def)
qed

text \<open>
  C1. The claim is that no per-mesh cleanup disposes the shared material. The code does:
  every section mesh is built on \<open>this.material\<close>, and \<open>dispose3\<close> with
  \<open>disposeTextures: false\<close> still calls \<open>dispose()\<close> on the material of the mesh it is
  given. On the renderer \<open>example_renderer\<close>, which holds one mesh on the shared
  material 0 and has disposed nothing so far, each of the three cleanup paths (a second
  geometry for the same section, \<open>removeColumn\<close>, \<open>resetWorld\<close>) disposes the mesh's
  geometry and then material 0, which stays the renderer's material. The shared texture
  100 is not disposed by any of them.
\<close>

theorem per_mesh_cleanup_disposes_shared_material:
  "material example_renderer = Some 0
   \<and> sectionMeshs example_renderer = [((0, 0, 0), Object3D 2 [] (Some 1) (OneMaterial 0) False)]
   \<and> gpu_log (store example_renderer) = [MapAssigned 0 100]
   \<and> gpu_log (store (handleGeometry example_renderer (0, 0, 0) \<lparr>buffers = 2, sx = 0, sy = 0, sz = 0\<rparr>))
     = [MapAssigned 0 100, GeometryDisposed 1, MaterialDisposed 0]
   \<and> material (handleGeometry example_renderer (0, 0, 0) \<lparr>buffers = 2, sx = 0, sy = 0, sz = 0\<rparr>)
     = Some 0
   \<and> gpu_log (store (removeColumn example_renderer 0 0))
     = [MapAssigned 0 100, GeometryDisposed 1, MaterialDisposed 0]
   \<and> gpu_log (store (resetWorld example_renderer))
     = [MapAssigned 0 100, GeometryDisposed 1, MaterialDisposed 0]
   \<and> material (resetWorld example_renderer) = Some 0"
proof -
  note e = example_renderer_fields
  have g: "Map_get (sectionMeshs example_renderer) (0, 0, 0)
           = Some (Object3D 2 [] (Some 1) (OneMaterial 0) False)"
    unfolding e(2) by (simp add: Map_get_def)
  have d: "gpu_log (store (remove_and_dispose (Object3D 2 [] (Some 1) (OneMaterial 0) False) example_renderer))
           = [MapAssigned 0 100, GeometryDisposed 1, MaterialDisposed 0]"
    unfolding remove_and_dispose_def by (simp add: dispose_one_material_def material_dispose_def emit_gpu_def e(3))
  have dm: "material (remove_and_dispose (Object3D 2 [] (Some 1) (OneMaterial 0) False) example_renderer)
           = Some 0"
    unfolding remove_and_dispose_def by (simp add: e(1))
  have hg: "gpu_log (store (handleGeometry example_renderer (0, 0, 0) \<lparr>buffers = 2, sx = 0, sy = 0, sz = 0\<rparr>))
     = [MapAssigned 0 100, GeometryDisposed 1, MaterialDisposed 0]"
    unfolding handleGeometry_def g Let_def using d by simp
  have hm: "material (handleGeometry example_renderer (0, 0, 0) \<lparr>buffers = 2, sx = 0, sy = 0, sz = 0\<rparr>)
     = Some 0"
    unfolding handleGeometry_def g Let_def using dm by simp
  let ?s1 = "post_all (UnloadChunk 0 0)
                (example_renderer\<lparr>loadedChunks := loadedChunks example_renderer - {columnKey 0 0}\<rparr>)"
  let ?t1 = "setSectionDirty ?s1 \<lparr>x = 0, y = 0, z = 0\<rparr> False"
  have g1: "Map_get (sectionMeshs ?t1) (sectionKey 0 0 0)
           = Some (Object3D 2 [] (Some 1) (OneMaterial 0) False)"
    using g by (simp add: sectionKey_def)
  have d1: "gpu_log (store (remove_and_dispose (Object3D 2 [] (Some 1) (OneMaterial 0) False) ?t1))
           = [MapAssigned 0 100, GeometryDisposed 1, MaterialDisposed 0]"
    unfolding remove_and_dispose_def
    by (simp add: dispose_one_material_def material_dispose_def emit_gpu_def e(3))
  have m1: "Map_delete (sectionMeshs example_renderer) (sectionKey 0 0 0) = []"
    unfolding e(2) by (simp add: Map_delete_def sectionKey_def)
  have b0: "gpu_log (store (removeColumn_section 0 0 ?s1 0))
            = [MapAssigned 0 100, GeometryDisposed 1, MaterialDisposed 0]"
    unfolding removeColumn_section_def Let_def g1 using d1 by simp
  have b1: "sectionMeshs (removeColumn_section 0 0 ?s1 0) = []"
    unfolding removeColumn_section_def Let_def g1 using m1 by (simp add: remove_and_dispose_def)
  have sh: "section_heights = 0 # tl section_heights"
    unfolding section_heights_eq by simp
  have "removeColumn example_renderer 0 0
        = foldl (removeColumn_section 0 0) (removeColumn_section 0 0 ?s1 0) (tl section_heights)"
    unfolding removeColumn_def by (subst sh) simp
  then have rc: "gpu_log (store (removeColumn example_renderer 0 0))
     = [MapAssigned 0 100, GeometryDisposed 1, MaterialDisposed 0]"
    using removeColumn_loop_no_meshes [OF b1, of 0 0 "tl section_heights"] b0 by simp
  have rw: "gpu_log (store (resetWorld example_renderer))
     = [MapAssigned 0 100, GeometryDisposed 1, MaterialDisposed 0]"
    unfolding resetWorld_def Let_def
    by (simp add: e(2) remove_and_dispose_def dispose_one_material_def material_dispose_def emit_gpu_def e(3))
  have rm: "material (resetWorld example_renderer) = Some 0"
    unfolding resetWorld_def Let_def
    by (simp add: e(2) remove_and_dispose_def e(1))
  show ?thesis using e(1,2,3) hg hm rc rw rm by blast
qed

subsection \<open>Waiting for the outstanding sections\<close>




lemma remove_and_dispose_wait [simp]:
  "renderUpdateEmitter (remove_and_dispose mesh s) = renderUpdateEmitter s"
  "resolved (remove_and_dispose mesh s) = resolved s"
  "next_ref (remove_and_dispose mesh s) = next_ref s"
  by (simp_all add: remove_and_dispose_def)

lemma resetWorld_wait [simp]:
  "renderUpdateEmitter (resetWorld s) = renderUpdateEmitter s"
  "resolved (resetWorld s) = resolved s"
  "next_ref (resetWorld s) = next_ref s"
  "sectionsOutstanding (resetWorld s) = {}"
  unfolding resetWorld_def Let_def
  by (simp_all add: post_all_def) (subst foldl_keeps; simp split: prod.splits)+

lemma setVersion_wait [simp]:
  "renderUpdateEmitter (setVersion s v) = renderUpdateEmitter s"
  "resolved (setVersion s v) = resolved s"
  "next_ref (setVersion s v) = next_ref s"
  by (simp_all add: setVersion_def)

lemma removeColumn_section_wait [simp]:
  "renderUpdateEmitter (removeColumn_section cx cz s h) = renderUpdateEmitter s"
  "resolved (removeColumn_section cx cz s h) = resolved s"
  "next_ref (removeColumn_section cx cz s h) = next_ref s"
  by (simp_all add: removeColumn_section_def Let_def split: option.splits)

lemma removeColumn_wait [simp]:
  "renderUpdateEmitter (removeColumn s cx cz) = renderUpdateEmitter s"
  "resolved (removeColumn s cx cz) = resolved s"
  "next_ref (removeColumn s cx cz) = next_ref s"
  unfolding removeColumn_def by (subst foldl_keeps; simp)+

lemma setBlockStateId_wait [simp]:
  "renderUpdateEmitter (setBlockStateId s p sid) = renderUpdateEmitter s"
  "resolved (setBlockStateId s p sid) = resolved s"
  "next_ref (setBlockStateId s p sid) = next_ref s"
  unfolding setBlockStateId_def by (subst foldl_keeps; simp)+












end
